theory Spec2Isabelle
  imports Complex_Main "HOL-Library.AList"
begin

section \<open>Conventions of the embedding\<close>

text \<open>
  The embedding follows \<^verbatim>\<open>texas_holdem/ai/shark_ai.py\<close>.
  \<^item> A Python \<^verbatim>\<open>float\<close> is a \<^typ>\<open>rat\<close>: a decimal literal such as \<^verbatim>\<open>0.66\<close> is read
    as the exact fraction, and IEEE rounding is not modelled. \<^verbatim>\<open>float('inf')\<close> is the extra
    value \<open>PosInf\<close>.
  \<^item> A Python \<^verbatim>\<open>int\<close> is an \<^typ>\<open>int\<close>; \<^verbatim>\<open>int(x)\<close> truncates towards zero.
  \<^item> A Python \<^verbatim>\<open>str\<close> is a \<^typ>\<open>string\<close> holding its UTF-8 bytes.
  \<^item> A Python \<^verbatim>\<open>dict\<close> is an association list in insertion order with distinct keys;
    \<^verbatim>\<open>d[k] = v\<close> is \<^const>\<open>AList.update\<close>.
  \<^item> An exception is the left summand of the result.
\<close>

datatype py_error = IndexError | KeyError | ZeroDivisionError

datatype pyfloat = Finite rat | PosInf

fun gt :: "pyfloat \<Rightarrow> rat \<Rightarrow> bool" where
  "gt PosInf c = True"
| "gt (Finite x) c = (c < x)"

fun pyfloat_less :: "pyfloat \<Rightarrow> pyfloat \<Rightarrow> bool" where
  "pyfloat_less (Finite x) (Finite y) = (x < y)"
| "pyfloat_less (Finite x) PosInf = True"
| "pyfloat_less PosInf y = False"

definition py_int :: "rat \<Rightarrow> int" where
  "py_int r = (if 0 \<le> r then \<lfloor>r\<rfloor> else \<lceil>r\<rceil>)"

definition dict_has :: "('k \<times> 'v) list \<Rightarrow> 'k \<Rightarrow> bool" where
  "dict_has d k = (map_of d k \<noteq> None)"

section \<open>Cards and players (declared outside the module; only the attributes read here)\<close>

record 's card =
  suit :: 's
  card_value :: int

record 's player =
  name :: string
  is_ai :: bool
  ai_style :: "string option"
  chips :: int
  is_dealer :: bool
  is_small_blind :: bool
  is_big_blind :: bool
  is_active :: bool
  hand :: "'s card list option"

section \<open>DrawEvaluator\<close>

record finding =
  outs :: int
  equity :: rat

type_synonym draws = "(string \<times> finding) list"

text \<open>The two loops over \<^verbatim>\<open>set(suits)\<close> write the same entry on every hit, so the
  dictionary gets the entry exactly when some suit satisfies the test.\<close>

definition flush_draw_found :: "'s card list \<Rightarrow> 's card list \<Rightarrow> bool" where
  "flush_draw_found hole_cards all_cards =
     list_ex (\<lambda>s. length (filter (\<lambda>c. suit c = s) all_cards) = 4 \<and>
                   1 \<le> length (filter (\<lambda>c. suit c = s) hole_cards))
             (remdups (map suit all_cards))"

definition backdoor_flush_found :: "'s card list \<Rightarrow> 's card list \<Rightarrow> bool" where
  "backdoor_flush_found community_cards all_cards =
     list_ex (\<lambda>s. count_list (map suit all_cards) s = 3 \<and> length community_cards = 3)
             (remdups (map suit all_cards))"

text \<open>The scan \<^verbatim>\<open>for i in range(len(values) - 3)\<close> with \<^verbatim>\<open>break\<close> on the first window
  whose ends differ by \<open>g\<close>.\<close>

definition window_found :: "int list \<Rightarrow> int \<Rightarrow> bool" where
  "window_found values g =
     list_ex (\<lambda>i. values ! (i + 3) - values ! i = g \<and>
                   length (remdups (take 4 (drop i values))) = 4)
             [0 ..< length values - 3]"

text \<open>The statement \<^verbatim>\<open>if c: draws[k] = v\<close>.\<close>

definition set_if :: "bool \<Rightarrow> string \<Rightarrow> finding \<Rightarrow> draws \<Rightarrow> draws" where
  "set_if c k v d = (if c then AList.update k v d else d)"

text \<open>The overcard block; \<open>hole_values\<close> is sorted in descending order and \<open>top_value\<close> is the
  value of the highest community card.\<close>

definition overcards :: "int list \<Rightarrow> int \<Rightarrow> draws \<Rightarrow> draws" where
  "overcards hole_values top_value d =
     (let overcard_outs = int (length (filter (\<lambda>v. top_value < v) hole_values))
      in set_if (12 \<le> hd hole_values \<and> 0 < overcard_outs) ''overcards''
           \<lparr>outs = overcard_outs * 3, equity = of_int overcard_outs * 0.12\<rparr> d)"

definition combo_draw :: "draws \<Rightarrow> draws" where
  "combo_draw d =
     (if dict_has d ''flush_draw'' \<and> dict_has d ''oesd''
      then AList.update ''combo_draw'' \<lparr>outs = 15, equity = 0.54\<rparr> d
      else if dict_has d ''flush_draw'' \<and> dict_has d ''gutshot''
      then AList.update ''combo_draw'' \<lparr>outs = 12, equity = 0.45\<rparr> d
      else d)"

text \<open>\<^verbatim>\<open>hole_values[0]\<close> raises \<^verbatim>\<open>IndexError\<close> when there are community cards but no hole
  cards.\<close>

definition identify_draws :: "'s card list \<Rightarrow> 's card list \<Rightarrow> py_error + draws" where
  "identify_draws hole_cards community_cards =
     (case community_cards of
        [] \<Rightarrow> Inr []
      | c0 # cs \<Rightarrow>
         (let all_cards = hole_cards @ community_cards;
              values = sort (remdups (map card_value all_cards));
              d = set_if (4 \<le> length values \<and> window_found values 4) ''gutshot''
                    \<lparr>outs = 4, equity = 0.16\<rparr>
                 (set_if (4 \<le> length values \<and> window_found values 3) ''oesd''
                    \<lparr>outs = 8, equity = 0.31\<rparr>
                 (set_if (backdoor_flush_found community_cards all_cards) ''backdoor_flush''
                    \<lparr>outs = 1, equity = 0.04\<rparr>
                 (set_if (flush_draw_found hole_cards all_cards) ''flush_draw''
                    \<lparr>outs = 9, equity = 0.35\<rparr> [])));
              hole_values = rev (sort (map card_value hole_cards));
              top_value = foldl max (card_value c0) (map card_value cs)
          in if hole_values = [] then Inl IndexError
             else Inr (combo_draw (overcards hole_values top_value d))))"

definition calculate_total_equity :: "draws \<Rightarrow> rat" where
  "calculate_total_equity draws =
     (case draws of
        [] \<Rightarrow> 0
      | kd # rest \<Rightarrow> foldl max (equity (snd kd)) (map (\<lambda>kd'. equity (snd kd')) rest))"

section \<open>PositionAwareness\<close>

definition POSITION_MULTIPLIERS :: "(string \<times> rat) list" where
  "POSITION_MULTIPLIERS =
     [(''EP'', 0.70), (''MP'', 0.85), (''CO'', 1.10),
      (''BTN'', 1.25), (''SB'', 0.90), (''BB'', 1.00)]"

definition get_position :: "('s, 'x) player_scheme \<Rightarrow> string" where
  "get_position player =
     (if is_dealer player then ''BTN''
      else if is_small_blind player then ''SB''
      else if is_big_blind player then ''BB''
      else ''MP'')"

definition dict_get :: "('k \<times> 'v) list \<Rightarrow> 'k \<Rightarrow> 'v \<Rightarrow> 'v" where
  "dict_get d k dflt = (case map_of d k of Some v \<Rightarrow> v | None \<Rightarrow> dflt)"

definition get_adjusted_threshold :: "rat \<Rightarrow> string \<Rightarrow> rat" where
  "get_adjusted_threshold base_threshold position =
     (let multiplier = dict_get POSITION_MULTIPLIERS position 1.0
      in base_threshold * multiplier)"

text \<open>The table that \<^verbatim>\<open>_preflop_decision\<close> builds inline and the threshold it derives
  from \<^verbatim>\<open>TIER3_THRESHOLD\<close>.\<close>

definition TIER3_THRESHOLD :: rat where
  "TIER3_THRESHOLD = 0.60"

definition position_multipliers :: "(string \<times> rat) list" where
  "position_multipliers =
     [(''EP'', 1.0), (''MP'', 0.98), (''CO'', 0.95),
      (''BTN'', 0.93), (''SB'', 0.98), (''BB'', 0.95)]"

definition preflop_adjusted_threshold :: "rat \<Rightarrow> string \<Rightarrow> rat" where
  "preflop_adjusted_threshold tier_threshold position =
     tier_threshold * dict_get position_multipliers position 1.0"

section \<open>PotOddsCalculator\<close>

datatype pyval = PFloat rat | PBool bool

fun truthy :: "pyval \<Rightarrow> bool" where
  "truthy (PBool b) = b"
| "truthy (PFloat x) = (x \<noteq> 0)"

definition calculate_direct_odds :: "int \<Rightarrow> int \<Rightarrow> py_error + rat" where
  "calculate_direct_odds amount_to_call total_pot =
     (if amount_to_call \<le> 0 then Inr 0
      else if total_pot + amount_to_call = 0 then Inl ZeroDivisionError
      else Inr (of_int amount_to_call / of_int (total_pot + amount_to_call)))"

definition street_multiplier :: "(string \<times> rat) list" where
  "street_multiplier = [(''flop'', 2.5), (''turn'', 1.3), (''river'', 1.0)]"

definition calculate_implied_odds ::
  "int \<Rightarrow> int \<Rightarrow> rat \<Rightarrow> string \<Rightarrow> rat \<Rightarrow> py_error + (string \<times> pyval) list" where
  "calculate_implied_odds amount_to_call total_pot effective_stack street draw_equity =
     (if amount_to_call \<le> 0
      then Inr [(''total_equity'', PFloat 0), (''should_call'', PBool True)]
      else
        (let multiplier = dict_get street_multiplier street 1.0;
             potential_future_win = min (effective_stack * 0.3 * draw_equity * multiplier)
                                        (effective_stack * 0.5);
             total_potential = of_int total_pot + potential_future_win
         in if total_pot + amount_to_call = 0 then Inl ZeroDivisionError
            else
              (let direct_equity_needed =
                     of_int amount_to_call / of_int (total_pot + amount_to_call);
                   implied_equity_needed =
                     (if of_int amount_to_call < total_potential
                      then of_int amount_to_call / total_potential
                      else direct_equity_needed)
               in Inr [(''direct_equity_needed'', PFloat direct_equity_needed),
                       (''implied_equity_needed'', PFloat implied_equity_needed),
                       (''potential_future_win'', PFloat potential_future_win),
                       (''should_call'',
                          PBool (implied_equity_needed * 0.9 < draw_equity))])))"

section \<open>SPRStrategy\<close>

record guidance =
  play_speculative :: bool
  set_mine :: bool
  commit_threshold :: rat
  avoid_light_commit :: bool
  hand_requirement :: rat
  push_fold :: "bool option"

definition calculate_spr :: "rat \<Rightarrow> int \<Rightarrow> pyfloat" where
  "calculate_spr effective_stack pot =
     (if pot \<le> 0 then PosInf else Finite (effective_stack / of_int pot))"

definition get_strategy_by_spr :: "pyfloat \<Rightarrow> rat \<Rightarrow> rat \<Rightarrow> guidance" where
  "get_strategy_by_spr spr hand_strength draw_equity =
     (if gt spr 15 then
        \<lparr>play_speculative = True, set_mine = True, commit_threshold = 0.75,
         avoid_light_commit = True, hand_requirement = 0.55, push_fold = None\<rparr>
      else if gt spr 7 then
        \<lparr>play_speculative = (0.25 < draw_equity), set_mine = True, commit_threshold = 0.65,
         avoid_light_commit = False, hand_requirement = 0.50, push_fold = None\<rparr>
      else if gt spr 3 then
        \<lparr>play_speculative = False, set_mine = False, commit_threshold = 0.55,
         avoid_light_commit = False, hand_requirement = 0.48, push_fold = Some False\<rparr>
      else
        \<lparr>play_speculative = False, set_mine = False, commit_threshold = 0.45,
         avoid_light_commit = False, hand_requirement = 0.42, push_fold = Some True\<rparr>)"

section \<open>SharkAI: configuration\<close>

record config =
  vpip_range :: "int \<times> int"
  pfr_range :: "int \<times> int"
  af_factor :: rat
  bluff_freq :: rat
  call_preflop :: rat
  raise_preflop :: rat
  bet_postflop :: rat
  fold_to_raise :: rat
  adaptation_start :: int
  learning_rate :: rat

text \<open>The dictionary that \<^verbatim>\<open>__init__\<close> stores in \<^verbatim>\<open>self.base_config\<close>.\<close>

definition initial_base_config :: config where
  "initial_base_config =
     \<lparr>vpip_range = (12, 18), pfr_range = (10, 16), af_factor = 2.5, bluff_freq = 0.15,
      call_preflop = 0.20, raise_preflop = 0.25, bet_postflop = 0.45, fold_to_raise = 0.60,
      adaptation_start = 20, learning_rate = 0.1\<rparr>"

section \<open>SharkAI: decisions\<close>

text \<open>The members of the enumeration \<^verbatim>\<open>Action\<close> (declared outside the module) that the
  module returns. The legal actions reach the decision procedures as \<^verbatim>\<open>available_names\<close>,
  the list of their lower-case names.\<close>

datatype Action = FOLD | CHECK | CALL | BET | RAISE | ALL_IN

text \<open>\<^verbatim>\<open>_preflop_decision\<close>; the parameters \<^verbatim>\<open>player\<close>, \<^verbatim>\<open>spr_guidance\<close> and \<^verbatim>\<open>config\<close> are
  not read by its body.\<close>

definition preflop_decision :: "string list \<Rightarrow> int \<Rightarrow> rat \<Rightarrow> string \<Rightarrow> Action \<times> int" where
  "preflop_decision available_names amount_to_call hand_strength position =
     (let adjusted_threshold = preflop_adjusted_threshold TIER3_THRESHOLD position
      in if hand_strength < adjusted_threshold then
           (if amount_to_call \<le> 0 \<and> ''check'' \<in> set available_names then (CHECK, 0)
            else (FOLD, 0))
         else if 0.80 \<le> hand_strength then
           (if ''raise'' \<in> set available_names then (RAISE, max 40 (amount_to_call + 30))
            else if ''bet'' \<in> set available_names then (BET, 40)
            else (FOLD, 0))
         else if 0.70 \<le> hand_strength then
           (if position \<in> set [''EP'', ''MP''] then
              (if 0 < amount_to_call \<and> ''call'' \<in> set available_names then (CALL, 0)
               else if ''check'' \<in> set available_names then (CHECK, 0)
               else if ''raise'' \<in> set available_names then (RAISE, 40)
               else (FOLD, 0))
            else
              (if ''raise'' \<in> set available_names then (RAISE, 40)
               else if ''call'' \<in> set available_names then (CALL, 0)
               else (FOLD, 0)))
         else
           (if position \<in> set [''CO'', ''BTN'', ''SB'']
               \<and> ''raise'' \<in> set available_names \<and> amount_to_call \<le> 20 then (RAISE, 40)
            else if position \<in> set [''CO'', ''BTN'', ''SB'']
               \<and> ''call'' \<in> set available_names \<and> amount_to_call \<le> 20 then (CALL, 0)
            else if amount_to_call \<le> 0 \<and> ''check'' \<in> set available_names then (CHECK, 0)
            else (FOLD, 0)))"

text \<open>\<^verbatim>\<open>weights.update({...})\<close> on a dictionary that already has every key: the order of
  the keys stays fold, check, call, bet, raise, all\_in.\<close>

definition dict_update :: "('k \<times> 'v) list \<Rightarrow> ('k \<times> 'v) list \<Rightarrow> ('k \<times> 'v) list" where
  "dict_update d kvs = foldl (\<lambda>d' kv. AList.update (fst kv) (snd kv) d') d kvs"

definition calculate_postflop_weights :: "rat \<Rightarrow> rat \<Rightarrow> config \<Rightarrow> (string \<times> rat) list" where
  "calculate_postflop_weights hand_strength draw_equity cfg =
     (let weights = [(''fold'', 0), (''check'', 0), (''call'', 0),
                     (''bet'', 0), (''raise'', 0), (''all_in'', 0)];
          total_equity = hand_strength * 0.7 + draw_equity * 0.3
      in if 0.80 < total_equity then
           dict_update weights [(''raise'', 0.50), (''bet'', 0.35), (''call'', 0.15)]
         else if 0.60 < total_equity then
           dict_update weights
             [(''bet'', 0.45), (''raise'', 0.25), (''call'', 0.25), (''check'', 0.05)]
         else if 0.45 < total_equity then
           dict_update weights
             [(''call'', 0.45), (''check'', 0.30), (''bet'', 0.15), (''fold'', 0.10)]
         else if 0.30 < total_equity \<or> 0.15 < draw_equity then
           dict_update weights
             [(''call'', 0.35), (''check'', 0.30), (''fold'', 0.25),
              (''bet'', 0.08 * bluff_freq cfg * 10)]
         else
           dict_update weights
             [(''fold'', 0.55), (''check'', 0.35), (''call'', 0.08),
              (''bet'', 0.02 * bluff_freq cfg * 10)])"

text \<open>\<^verbatim>\<open>_calculate_amount\<close>. Its first two tests compare the \<^verbatim>\<open>Action\<close> member with
  strings; what that comparison yields depends on the enumeration's declaration, so it is the
  parameter \<open>aeq\<close>. The big blind is the constant 20.\<close>

definition calculate_amount ::
  "(Action \<Rightarrow> string \<Rightarrow> bool) \<Rightarrow> Action \<Rightarrow> int \<Rightarrow> int \<Rightarrow> rat \<Rightarrow> rat \<Rightarrow> int \<Rightarrow> int" where
  "calculate_amount aeq action player_chips current_bet hand_strength draw_equity total_pot0 =
     (if list_ex (aeq action) [''fold'', ''check'', ''call''] then 0
      else if aeq action ''all_in'' then player_chips
      else
        (let total_pot = (if total_pot0 \<le> 0 then 100 else total_pot0);
             big_blind = 20;
             total_strength = hand_strength + draw_equity * 0.5
         in if current_bet = 0 then
              (let bet_size =
                    (if 0.80 < total_strength then py_int (of_int total_pot * 0.75)
                     else if 0.60 < total_strength then py_int (of_int total_pot * 0.66)
                     else if 0.25 < draw_equity then py_int (of_int total_pot * 0.60)
                     else if 0.45 < total_strength then py_int (of_int total_pot * 0.33)
                     else py_int (of_int total_pot * 0.25))
               in max (big_blind * 2) bet_size)
            else
              (let target_total =
                    (if 0.80 < total_strength then py_int (of_int total_pot * 0.75)
                     else if 0.60 < total_strength then py_int (of_int total_pot * 0.66)
                     else if 0.25 < draw_equity then py_int (of_int total_pot * 0.60)
                     else if 0.45 < total_strength then py_int (of_int total_pot * 0.50)
                     else current_bet + big_blind * 2);
                   raise_amount = max 0 (target_total - current_bet);
                   min_raise = big_blind * 2
               in max min_raise raise_amount)))"

text \<open>\<^verbatim>\<open>_weighted_choice\<close>; \<open>u\<close> is the value of \<^verbatim>\<open>random.random()\<close>, a number in \<open>[0, 1)\<close>.\<close>

fun weighted_scan :: "rat \<Rightarrow> rat \<Rightarrow> (string \<times> rat) list \<Rightarrow> string option" where
  "weighted_scan r cumulative [] = None"
| "weighted_scan r cumulative (aw # rest) =
     (if r \<le> cumulative + snd aw then Some (fst aw)
      else weighted_scan r (cumulative + snd aw) rest)"

definition weighted_choice :: "rat \<Rightarrow> (string \<times> rat) list \<Rightarrow> py_error + string" where
  "weighted_choice u weights =
     (let total = sum_list (map snd weights)
      in if total = 0 then Inr ''fold''
         else (case weighted_scan (u * total) 0 weights of
                 Some a \<Rightarrow> Inr a
               | None \<Rightarrow> if weights = [] then Inl IndexError else Inr (fst (last weights))))"

definition action_map :: "(string \<times> Action) list" where
  "action_map = [(''fold'', FOLD), (''check'', CHECK), (''call'', CALL),
                 (''bet'', BET), (''raise'', RAISE), (''all_in'', ALL_IN)]"

text \<open>\<^verbatim>\<open>_postflop_decision\<close>, in its three steps. The parameters \<^verbatim>\<open>direct_odds\<close> and
  \<^verbatim>\<open>draws\<close> are not read by its body.\<close>

definition draw_step ::
  "string list \<Rightarrow> int \<Rightarrow> rat \<Rightarrow> rat \<Rightarrow> (string \<times> pyval) list
     \<Rightarrow> py_error + (Action \<times> int) option" where
  "draw_step available_names current_bet hand_strength draw_equity implied_calc =
     (if 0.15 < draw_equity then
        (case map_of implied_calc ''should_call'' of
           None \<Rightarrow> Inl KeyError
         | Some sc \<Rightarrow>
            if truthy sc \<and> ''call'' \<in> set available_names then Inr (Some (CALL, 0))
            else if 0.30 < draw_equity \<and> ''raise'' \<in> set available_names \<and> hand_strength < 0.5
            then Inr (Some (RAISE, max 40 (current_bet + 20)))
            else Inr None)
      else Inr None)"

definition valid_weights :: "string list \<Rightarrow> (string \<times> rat) list \<Rightarrow> (string \<times> rat) list" where
  "valid_weights available_names action_weights =
     (let valid = filter (\<lambda>kv. fst kv \<in> set available_names \<and> 0 < snd kv) action_weights
      in if ''check'' \<in> set available_names \<and> dict_has valid ''fold''
         then AList.delete ''fold'' valid else valid)"

definition weighted_step ::
  "rat \<Rightarrow> (Action \<Rightarrow> string \<Rightarrow> bool) \<Rightarrow> int \<Rightarrow> string list \<Rightarrow> int \<Rightarrow> rat \<Rightarrow> rat
     \<Rightarrow> config \<Rightarrow> int \<Rightarrow> py_error + Action \<times> int" where
  "weighted_step u aeq player_chips available_names current_bet hand_strength draw_equity
       cfg total_pot =
     (let action_weights = calculate_postflop_weights hand_strength draw_equity cfg;
          valid = valid_weights available_names action_weights
      in if valid = [] then Inr (FOLD, 0)
         else (case weighted_choice u valid of
                 Inl e \<Rightarrow> Inl e
               | Inr action_name \<Rightarrow>
                  (let action = dict_get action_map action_name FOLD;
                       amount = calculate_amount aeq action player_chips current_bet
                                  hand_strength draw_equity total_pot
                   in Inr (action, amount))))"

definition postflop_decision ::
  "rat \<Rightarrow> (Action \<Rightarrow> string \<Rightarrow> bool) \<Rightarrow> int \<Rightarrow> string list \<Rightarrow> int \<Rightarrow> rat \<Rightarrow> rat \<Rightarrow> rat
     \<Rightarrow> (string \<times> pyval) list \<Rightarrow> guidance \<Rightarrow> config \<Rightarrow> int \<Rightarrow> py_error + Action \<times> int" where
  "postflop_decision u aeq player_chips available_names current_bet hand_strength draw_equity
       total_equity implied_calc spr_guidance cfg total_pot =
     (if (case push_fold spr_guidance of Some b \<Rightarrow> b | None \<Rightarrow> False) then
        (if commit_threshold spr_guidance \<le> total_equity then Inr (ALL_IN, player_chips)
         else Inr (FOLD, 0))
      else
        (case draw_step available_names current_bet hand_strength draw_equity implied_calc of
           Inl e \<Rightarrow> Inl e
         | Inr (Some r) \<Rightarrow> Inr r
         | Inr None \<Rightarrow>
            weighted_step u aeq player_chips available_names current_bet hand_strength
              draw_equity cfg total_pot))"

text \<open>\<^verbatim>\<open>get_action\<close>. The betting round and the game state are declared outside the
  module; the request holds what the method reads from them. An attribute that the method
  probes with \<^verbatim>\<open>hasattr\<close> is optional. The parameters \<^verbatim>\<open>pot_odds\<close> and \<^verbatim>\<open>ev\<close> are not read.\<close>

datatype GameState = PRE_FLOP | FLOP | TURN | RIVER | SHOWDOWN | OTHER_STATE

record 's table =
  table_total_pot :: "int option"
  table_community_cards :: "'s card list"

record 's game_state =
  gs_current_bet :: "int option"
  gs_table :: "'s table option"
  gs_players :: "'s player list option"
  gs_state :: GameState

definition street_map :: "(GameState \<times> string) list" where
  "street_map = [(PRE_FLOP, ''preflop''), (FLOP, ''flop''), (TURN, ''turn''),
                 (RIVER, ''river''), (SHOWDOWN, ''river'')]"

definition effective_stack_of :: "'s player \<Rightarrow> 's player list \<Rightarrow> rat" where
  "effective_stack_of player active_players =
     min (of_int (chips player))
         (of_int (sum_list (map chips active_players))
            / of_int (max 1 (int (length active_players) - 1)))"

definition pot_of :: "'s game_state \<Rightarrow> int" where
  "pot_of game_state =
     (case gs_table game_state of
        Some t \<Rightarrow> (case table_total_pot t of Some p \<Rightarrow> p | None \<Rightarrow> 0)
      | None \<Rightarrow> 0)"

definition active_players_of :: "'s game_state \<Rightarrow> 's player list" where
  "active_players_of game_state =
     filter is_active (case gs_players game_state of Some ps \<Rightarrow> ps | None \<Rightarrow> [])"

definition hole_cards_of :: "'s player \<Rightarrow> 's card list" where
  "hole_cards_of player = (case hand player of Some cs \<Rightarrow> cs | None \<Rightarrow> [])"

definition community_cards_of :: "'s game_state \<Rightarrow> 's card list" where
  "community_cards_of game_state =
     (case gs_table game_state of Some t \<Rightarrow> table_community_cards t | None \<Rightarrow> [])"

definition get_action ::
  "config \<Rightarrow> rat \<Rightarrow> (Action \<Rightarrow> string \<Rightarrow> bool) \<Rightarrow> 's player \<Rightarrow> string list \<Rightarrow> int
     \<Rightarrow> 's game_state \<Rightarrow> rat \<Rightarrow> rat \<Rightarrow> py_error + Action \<times> int" where
  "get_action cfg u aeq player available_names amount_to_call game_state hand_strength
       win_probability =
     (let current_bet = (case gs_current_bet game_state of Some b \<Rightarrow> b | None \<Rightarrow> 0);
          total_pot = pot_of game_state;
          position = get_position player;
          effective_stack = effective_stack_of player (active_players_of game_state);
          spr = calculate_spr effective_stack total_pot
      in case identify_draws (hole_cards_of player) (community_cards_of game_state) of
           Inl e \<Rightarrow> Inl e
         | Inr draws \<Rightarrow>
            (let draw_equity = calculate_total_equity draws;
                 current_street = dict_get street_map (gs_state game_state) ''preflop'';
                 is_preflop = (gs_state game_state = PRE_FLOP);
                 total_equity = win_probability + draw_equity * 0.5
             in case calculate_direct_odds amount_to_call total_pot of
                  Inl e \<Rightarrow> Inl e
                | Inr direct_odds \<Rightarrow>
                   (case calculate_implied_odds amount_to_call total_pot effective_stack
                           current_street draw_equity of
                      Inl e \<Rightarrow> Inl e
                    | Inr implied_calc \<Rightarrow>
                       (let spr_guidance = get_strategy_by_spr spr hand_strength draw_equity
                        in if is_preflop then
                             Inr (preflop_decision available_names amount_to_call
                                    hand_strength position)
                           else
                             postflop_decision u aeq (chips player) available_names
                               current_bet hand_strength draw_equity total_equity
                               implied_calc spr_guidance cfg total_pot))))"

section \<open>SharkAI: opponent model\<close>

record opp =
  hands_observed :: int
  folds :: int
  calls :: int
  raises :: int
  bluffs_detected :: int
  bluff_opportunities :: int
  fold_to_cbet :: int
  cbet_opportunities :: int
  showdown_wins :: int
  showdowns :: int
  fold_tendency :: rat
  bluff_tendency :: rat
  calling_tendency :: rat

text \<open>The attributes of a \<^verbatim>\<open>SharkAI\<close> object that the opponent model reads or writes.
  The counter \<^verbatim>\<open>self.hands_observed\<close> is the field \<open>hands_seen\<close>. The attributes
  \<^verbatim>\<open>current_street\<close> and \<^verbatim>\<open>effective_stack\<close>, which only \<^verbatim>\<open>get_action\<close> writes and nothing
  reads back, are left out.\<close>

record shark =
  base_config :: config
  opponent_data :: "(string \<times> opp) list"
  adaptation_active :: bool
  hands_seen :: int
  current_config :: config

definition shark_init :: shark where
  "shark_init =
     \<lparr>base_config = initial_base_config, opponent_data = [], adaptation_active = False,
      hands_seen = 0, current_config = initial_base_config\<rparr>"

definition fresh_opp :: opp where
  "fresh_opp =
     \<lparr>hands_observed = 0, folds = 0, calls = 0, raises = 0, bluffs_detected = 0,
      bluff_opportunities = 0, fold_to_cbet = 0, cbet_opportunities = 0, showdown_wins = 0,
      showdowns = 0, fold_tendency = 0.5, bluff_tendency = 0.5, calling_tendency = 0.5\<rparr>"

definition initialize_opponents :: "shark \<Rightarrow> 's player list \<Rightarrow> shark" where
  "initialize_opponents s players =
     s\<lparr>opponent_data :=
          foldl (\<lambda>d p. if \<not> is_ai p \<or> (case ai_style p of Some st \<Rightarrow> st | None \<Rightarrow> ''LAG'') \<noteq> ''SHARK''
                        then AList.update (name p) fresh_opp d else d)
                [] players,
        adaptation_active := False,
        hands_seen := 0,
        current_config := base_config s\<rparr>"

text \<open>The counter updates of \<^verbatim>\<open>update_after_action\<close> on the opponent's record.\<close>

definition count_action :: "string \<Rightarrow> bool \<Rightarrow> bool \<Rightarrow> opp \<Rightarrow> opp" where
  "count_action action is_bluff facing_cbet data0 =
     (let data1 = data0\<lparr>hands_observed := hands_observed data0 + 1\<rparr>;
          data2 =
            (if action = ''fold'' then
               (let d = data1\<lparr>folds := folds data1 + 1\<rparr>
                in if facing_cbet then d\<lparr>fold_to_cbet := fold_to_cbet d + 1\<rparr> else d)
             else if action \<in> set [''call''] then data1\<lparr>calls := calls data1 + 1\<rparr>
             else if action \<in> set [''raise'', ''bet''] then
               (let d = data1\<lparr>raises := raises data1 + 1\<rparr>
                in if is_bluff then d\<lparr>bluffs_detected := bluffs_detected d + 1\<rparr> else d)
             else data1)
      in if facing_cbet then data2\<lparr>cbet_opportunities := cbet_opportunities data2 + 1\<rparr>
         else data2)"

text \<open>\<^verbatim>\<open>_calculate_tendencies\<close> on the opponent's record.\<close>

definition calculate_tendencies :: "opp \<Rightarrow> opp" where
  "calculate_tendencies data =
     (let hands = hands_observed data
      in if hands < 3 then data
         else
           (let fold_rate = of_int (folds data) / of_int hands;
                d1 = data\<lparr>fold_tendency := min 1.0 (max 0.0 (fold_rate * 2))\<rparr>;
                d2 = (if 0 < raises d1
                      then d1\<lparr>bluff_tendency :=
                                min 1.0 (of_int (bluffs_detected d1) / of_int (raises d1) * 3)\<rparr>
                      else d1)
            in if folds d2 < hands
               then d2\<lparr>calling_tendency :=
                         min 1.0 (max 0.0 (of_int (calls d2) / of_int (hands - folds d2)))\<rparr>
               else d2))"

definition avg_tendency :: "(opp \<Rightarrow> rat) \<Rightarrow> (string \<times> opp) list \<Rightarrow> rat" where
  "avg_tendency f data = sum_list (map (\<lambda>kd. f (snd kd)) data) / of_nat (length data)"

text \<open>\<^verbatim>\<open>_update_strategy\<close>: the three rules write into \<^verbatim>\<open>self.current_config\<close> in turn, and
  the copy of the base configuration is assigned only when no rule fired.\<close>

definition update_strategy :: "shark \<Rightarrow> shark" where
  "update_strategy s =
     (if opponent_data s = [] then s
      else
        (let avg_fold = avg_tendency fold_tendency (opponent_data s);
             avg_bluff = avg_tendency bluff_tendency (opponent_data s);
             avg_call = avg_tendency calling_tendency (opponent_data s);
             base = base_config s;
             c0 = current_config s;
             c1 = (if 0.6 < avg_fold then
                     c0\<lparr>bluff_freq := min 0.5 (bluff_freq base + 0.15),
                        bet_postflop := min 0.7 (bet_postflop base + 0.15),
                        af_factor := af_factor base + 0.5\<rparr>
                   else c0);
             c2 = (if 0.4 < avg_bluff then
                     c1\<lparr>vpip_range := (max 15 (fst (vpip_range base) - 5),
                                       max 20 (snd (vpip_range base) - 5)),
                        call_preflop := min 0.4 (call_preflop base + 0.1),
                        fold_to_raise := max 0.3 (fold_to_raise base - 0.1)\<rparr>
                   else c1);
             c3 = (if 0.5 < avg_call then
                     c2\<lparr>bluff_freq := max 0.1 (bluff_freq base - 0.1),
                        bet_postflop := bet_postflop base + 0.1,
                        af_factor := af_factor base + 0.3\<rparr>
                   else c2)
         in if \<not> 0.6 < avg_fold \<and> \<not> 0.4 < avg_bluff \<and> \<not> 0.5 < avg_call
            then s\<lparr>current_config := base\<rparr>
            else s\<lparr>current_config := c3\<rparr>))"

definition total_hands :: "shark \<Rightarrow> int" where
  "total_hands s = sum_list (map (\<lambda>kd. hands_observed (snd kd)) (opponent_data s))"

definition update_after_action :: "shark \<Rightarrow> string \<Rightarrow> string \<Rightarrow> string \<Rightarrow> bool \<Rightarrow> bool \<Rightarrow> shark" where
  "update_after_action s player_name action street is_bluff facing_cbet =
     (case map_of (opponent_data s) player_name of
        None \<Rightarrow> s
      | Some data0 \<Rightarrow>
         (let data = count_action action is_bluff facing_cbet data0;
              s1 = s\<lparr>opponent_data :=
                        AList.map_entry player_name (\<lambda>_. data) (opponent_data s),
                      hands_seen := hands_seen s + 1\<rparr>;
              s2 = (if \<not> adaptation_active s1
                       \<and> adaptation_start (base_config s1) \<le> total_hands s1
                    then s1\<lparr>adaptation_active := True\<rparr> else s1)
          in if hands_observed data mod 5 = 0 \<or> adaptation_active s2 then
               (let s3 = s2\<lparr>opponent_data :=
                              AList.map_entry player_name calculate_tendencies
                                (opponent_data s2)\<rparr>
                in if adaptation_active s3 then update_strategy s3 else s3)
             else s2))"

text \<open>A sequence of \<^verbatim>\<open>update_after_action\<close> calls; a call is the tuple of its arguments
  (player name, action, street, is\_bluff, facing\_cbet).\<close>

type_synonym observation = "string \<times> string \<times> string \<times> bool \<times> bool"

definition observe :: "shark \<Rightarrow> observation \<Rightarrow> shark" where
  "observe s ob =
     (case ob of (player_name, action, street, is_bluff, facing_cbet) \<Rightarrow>
        update_after_action s player_name action street is_bluff facing_cbet)"

definition observe_all :: "shark \<Rightarrow> observation list \<Rightarrow> shark" where
  "observe_all s obs = foldl observe s obs"

text \<open>\<^verbatim>\<open>get_opponent_summary\<close>. The messages are Chinese text, given here by their UTF-8
  bytes: the tag is \<^verbatim>\<open>[..AI] \<close> with the two characters of ``shark'' in front of \<^verbatim>\<open>AI\<close>, and
  the three messages are ``observing...'', ``analysis: '' and ``learning...''.\<close>

definition shark_tag :: string where
  "shark_tag = [CHR 0x5B, CHR 0xE9, CHR 0xB2, CHR 0xA8, CHR 0xE9, CHR 0xB1, CHR 0xBC,
                CHR 0x41, CHR 0x49, CHR 0x5D, CHR 0x20]"

definition msg_observing :: string where
  "msg_observing = shark_tag @ [CHR 0xE8, CHR 0xA7, CHR 0x82, CHR 0xE5, CHR 0xAF, CHR 0x9F,
                                CHR 0xE4, CHR 0xB8, CHR 0xAD, CHR 0x2E, CHR 0x2E, CHR 0x2E]"

definition msg_analysis :: string where
  "msg_analysis = shark_tag @ [CHR 0xE5, CHR 0x88, CHR 0x86, CHR 0xE6, CHR 0x9E, CHR 0x90,
                               CHR 0x3A, CHR 0x20]"

definition msg_learning :: string where
  "msg_learning = shark_tag @ [CHR 0xE5, CHR 0xAD, CHR 0xA6, CHR 0xE4, CHR 0xB9, CHR 0xA0,
                               CHR 0xE4, CHR 0xB8, CHR 0xAD, CHR 0x2E, CHR 0x2E, CHR 0x2E]"

definition fold_desc :: "opp \<Rightarrow> string" where
  "fold_desc data =
     (if 0.6 < fold_tendency data
      then [CHR 0xE6, CHR 0x98, CHR 0x93, CHR 0xE5, CHR 0xBC, CHR 0x83, CHR 0xE7, CHR 0x89, CHR 0x8C]
      else if fold_tendency data < 0.4
      then [CHR 0xE9, CHR 0x9A, CHR 0xBE, CHR 0xE5, CHR 0xBC, CHR 0x83, CHR 0xE7, CHR 0x89, CHR 0x8C]
      else [CHR 0xE4, CHR 0xB8, CHR 0xAD, CHR 0xE7, CHR 0xAD, CHR 0x89])"

definition bluff_desc :: "opp \<Rightarrow> string" where
  "bluff_desc data =
     (if 0.4 < bluff_tendency data
      then [CHR 0xE7, CHR 0x88, CHR 0xB1, CHR 0xE8, CHR 0xAF, CHR 0x88, CHR 0xE5, CHR 0x94, CHR 0xAC]
      else if bluff_tendency data < 0.2
      then [CHR 0xE8, CHR 0xAF, CHR 0x9A, CHR 0xE5, CHR 0xAE, CHR 0x9E]
      else [CHR 0xE5, CHR 0xB9, CHR 0xB3, CHR 0xE8, CHR 0xA1, CHR 0xA1])"

fun join :: "string \<Rightarrow> string list \<Rightarrow> string" where
  "join sep [] = []"
| "join sep [x] = x"
| "join sep (x # y # ys) = x @ sep @ join sep (y # ys)"

definition get_opponent_summary :: "shark \<Rightarrow> string" where
  "get_opponent_summary s =
     (if \<not> adaptation_active s then msg_observing
      else
        (let summaries =
               map (\<lambda>kd. fst kd @ ''('' @ fold_desc (snd kd) @ ''/'' @ bluff_desc (snd kd) @ '')'')
                   (filter (\<lambda>kd. 5 \<le> hands_observed (snd kd)) (opponent_data s))
         in if summaries \<noteq> [] then msg_analysis @ join '', '' summaries
            else msg_learning))"

text \<open>The aggregate tendency snapshot: the three averages that \<^verbatim>\<open>_update_strategy\<close>
  computes over the tracked opponents.\<close>

definition aggregate :: "shark \<Rightarrow> rat \<times> rat \<times> rat" where
  "aggregate s = (avg_tendency fold_tendency (opponent_data s),
                  avg_tendency bluff_tendency (opponent_data s),
                  avg_tendency calling_tendency (opponent_data s))"

text \<open>The relation between the current configuration, the base configuration and the
  aggregate that the proofs below carry through a session: the four entries that no rule
  writes are those of the base; before activation the whole configuration is the base; after
  activation it is the base when no rule fires, and the entries written by a rule that fires
  have the value the rule computes from the base (the calling rule runs last and wins on the
  three entries it shares with the folding rule).\<close>

definition config_invariant :: "shark \<Rightarrow> bool" where
  "config_invariant s =
     (let base = base_config s; cur = current_config s;
          avg_fold = fst (aggregate s); avg_bluff = fst (snd (aggregate s));
          avg_call = snd (snd (aggregate s))
      in pfr_range cur = pfr_range base \<and> raise_preflop cur = raise_preflop base \<and>
         adaptation_start cur = adaptation_start base \<and>
         learning_rate cur = learning_rate base \<and>
         (if \<not> adaptation_active s then cur = base
          else
            (\<not> 0.6 < avg_fold \<and> \<not> 0.4 < avg_bluff \<and> \<not> 0.5 < avg_call \<longrightarrow> cur = base) \<and>
            (0.5 < avg_call \<longrightarrow>
               bluff_freq cur = max 0.1 (bluff_freq base - 0.1) \<and>
               bet_postflop cur = bet_postflop base + 0.1 \<and>
               af_factor cur = af_factor base + 0.3) \<and>
            (0.6 < avg_fold \<and> \<not> 0.5 < avg_call \<longrightarrow>
               bluff_freq cur = min 0.5 (bluff_freq base + 0.15) \<and>
               bet_postflop cur = min 0.7 (bet_postflop base + 0.15) \<and>
               af_factor cur = af_factor base + 0.5) \<and>
            (0.4 < avg_bluff \<longrightarrow>
               vpip_range cur = (max 15 (fst (vpip_range base) - 5),
                                 max 20 (snd (vpip_range base) - 5)) \<and>
               call_preflop cur = min 0.4 (call_preflop base + 0.1) \<and>
               fold_to_raise cur = max 0.3 (fold_to_raise base - 0.1))))"

section \<open>Concrete inputs used by the closed theorems\<close>

text \<open>Ace and king of one suit on a board with queen and jack of that suit and an
  offsuit deuce: flush draw, open-ended straight draw, two overcards, combo draw.\<close>

definition ex_hole :: "nat card list" where
  "ex_hole = [\<lparr>suit = 0, card_value = 14\<rparr>, \<lparr>suit = 0, card_value = 13\<rparr>]"

definition ex_board :: "nat card list" where
  "ex_board = [\<lparr>suit = 0, card_value = 12\<rparr>, \<lparr>suit = 0, card_value = 11\<rparr>,
               \<lparr>suit = 1, card_value = 2\<rparr>]"

definition ex_draws :: draws where
  "ex_draws = [(''flush_draw'', \<lparr>outs = 9, equity = 0.35\<rparr>),
               (''oesd'', \<lparr>outs = 8, equity = 0.31\<rparr>),
               (''overcards'', \<lparr>outs = 6, equity = 0.24\<rparr>),
               (''combo_draw'', \<lparr>outs = 15, equity = 0.54\<rparr>)]"

text \<open>An \<^verbatim>\<open>Action\<close> enumeration whose members never compare equal to a string, as
  the members of a plain \<^verbatim>\<open>Enum\<close> do.\<close>

definition plain_enum :: "Action \<Rightarrow> string \<Rightarrow> bool" where
  "plain_enum a s = False"

text \<open>A short-stacked player on the flop with no draw: two active players with 100 chips
  each, a pot of 100, so the stack-to-pot ratio is 1.\<close>

definition ex_shark :: "nat player" where
  "ex_shark = \<lparr>name = ''shark'', is_ai = True, ai_style = Some ''SHARK'', chips = 100,
     is_dealer = False, is_small_blind = False, is_big_blind = True, is_active = True,
     hand = Some [\<lparr>suit = 3, card_value = 7\<rparr>, \<lparr>suit = 2, card_value = 2\<rparr>]\<rparr>"

definition ex_villain :: "nat player" where
  "ex_villain = \<lparr>name = ''villain'', is_ai = False, ai_style = None, chips = 100,
     is_dealer = True, is_small_blind = False, is_big_blind = False, is_active = True,
     hand = None\<rparr>"

definition ex_flop :: "nat game_state" where
  "ex_flop = \<lparr>gs_current_bet = Some 0,
     gs_table = Some \<lparr>table_total_pot = Some 100,
       table_community_cards = [\<lparr>suit = 0, card_value = 13\<rparr>, \<lparr>suit = 1, card_value = 9\<rparr>,
                                \<lparr>suit = 2, card_value = 4\<rparr>]\<rparr>,
     gs_players = Some [ex_shark, ex_villain], gs_state = FLOP\<rparr>"

definition ex_legal :: "string list" where
  "ex_legal = [''fold'', ''check'', ''bet'', ''all_in'']"

text \<open>Guidance of the regime \<open>7 < spr \<le> 15\<close> and of the regime \<open>spr > 15\<close>, the implied
  odds of a call of 50 into a pot of 100 on the flop with draw equity 0.35, and the implied
  odds of a free call.\<close>

definition ex_guidance :: guidance where
  "ex_guidance = get_strategy_by_spr (Finite 10) 0.3 0.35"

definition ex_implied :: "(string \<times> pyval) list" where
  "ex_implied = [(''direct_equity_needed'', PFloat (1/3)),
          (''implied_equity_needed'', PFloat (4/29)),
          (''potential_future_win'', PFloat 262.5),
          (''should_call'', PBool True)]"

definition ex_free :: "(string \<times> pyval) list" where
  "ex_free = [(''total_equity'', PFloat 0), (''should_call'', PBool True)]"

definition ex_deep :: guidance where
  "ex_deep = get_strategy_by_spr (Finite 20) 0.95 0.54"

text \<open>A session with one tracked opponent, and two actions of that opponent.\<close>

definition registered :: shark where
  "registered = initialize_opponents shark_init [ex_villain]"

definition ob_fold :: observation where
  "ob_fold = (''villain'', ''fold'', ''flop'', False, False)"

definition ob_raise :: observation where
  "ob_raise = (''villain'', ''raise'', ''flop'', False, False)"

section \<open>DrawEvaluator: total equity\<close>

lemma foldl_max_Max: "foldl max (a::rat) xs = Max (set (a # xs))"
proof (induction xs arbitrary: a)
  case Nil show ?case by simp
next
  case (Cons x xs)
  have "foldl max a (x # xs) = Max (set (max a x # xs))" using Cons by simp
  also have "\<dots> = Max (set (a # x # xs))"
    by (cases "xs = []") (auto simp: max.assoc)
  finally show ?case .
qed

lemma cte_Max:
  assumes "draws \<noteq> []"
  shows "calculate_total_equity draws = Max (set (map (\<lambda>kd. equity (snd kd)) draws))"
proof (cases draws)
  case Nil with assms show ?thesis by simp
next
  case (Cons kd rest)
  have "calculate_total_equity draws = foldl max (equity (snd kd)) (map (\<lambda>kd'. equity (snd kd')) rest)"
    by (simp add: calculate_total_equity_def Cons)
  also have "\<dots> = Max (set (equity (snd kd) # map (\<lambda>kd'. equity (snd kd')) rest))"
    by (rule foldl_max_Max)
  finally show ?thesis by (simp add: Cons)
qed

lemma cte_attained:
  assumes "draws \<noteq> []"
  shows "\<exists>kd\<in>set draws. calculate_total_equity draws = equity (snd kd)"
proof -
  let ?E = "set (map (\<lambda>kd. equity (snd kd)) draws)"
  have "finite ?E" "?E \<noteq> {}" using assms by simp_all
  then have "Max ?E \<in> ?E" by (rule Max_in)
  then show ?thesis using cte_Max [OF assms] by auto
qed

lemma cte_nonneg:
  assumes "\<forall>kd\<in>set draws. 0 \<le> equity (snd kd)"
  shows "0 \<le> calculate_total_equity draws"
proof (cases "draws = []")
  case True then show ?thesis by (simp add: calculate_total_equity_def)
next
  case False
  from cte_attained [OF False] assms show ?thesis by auto
qed

lemma sum_list_pos_gt_member:
  fixes xs :: "rat list"
  assumes "\<forall>x\<in>set xs. 0 < x" "2 \<le> length xs" "m \<in> set xs"
  shows "m < sum_list xs"
  using assms
proof (induction xs)
  case Nil then show ?case by simp
next
  case (Cons x xs)
  then obtain y ys where xs: "xs = y # ys" by (cases xs) auto
  have pos: "\<forall>z\<in>set xs. 0 < z" using Cons.prems by simp
  have nn: "0 \<le> sum_list xs" using pos by (intro sum_list_nonneg) (auto intro: less_imp_le)
  have "0 < y" using pos xs by simp
  moreover have "0 \<le> sum_list ys"
    using pos xs by (intro sum_list_nonneg) (auto intro: less_imp_le)
  ultimately have ypos: "0 < sum_list xs" using xs by simp
  show ?case
  proof (cases "m = x")
    case True then show ?thesis using ypos by simp
  next
    case False
    then have m: "m \<in> set xs" using Cons.prems by simp
    have x: "0 < x" using Cons.prems by simp
    have "m \<le> sum_list xs" using m pos by (intro member_le_sum_list) (auto intro: less_imp_le)
    then show ?thesis using x by simp
  qed
qed

lemma update_nonneg:
  assumes "\<forall>kd\<in>set d. 0 \<le> equity (snd kd)" "0 \<le> equity v"
  shows "\<forall>kd\<in>set (AList.update k v d). 0 \<le> equity (snd kd)"
  using assms by (induction d) auto

lemma set_if_nonneg:
  "\<forall>kd\<in>set d. 0 \<le> equity (snd kd) \<Longrightarrow> 0 \<le> equity v \<Longrightarrow>
   \<forall>kd\<in>set (set_if c k v d). 0 \<le> equity (snd kd)"
  by (simp add: set_if_def update_nonneg)

lemma overcards_nonneg:
  "\<forall>kd\<in>set d. 0 \<le> equity (snd kd) \<Longrightarrow>
   \<forall>kd\<in>set (overcards hv tv d). 0 \<le> equity (snd kd)"
  unfolding overcards_def Let_def by (rule set_if_nonneg) simp_all

lemma combo_draw_nonneg:
  assumes "\<forall>kd\<in>set d. 0 \<le> equity (snd kd)"
  shows "\<forall>kd\<in>set (combo_draw d). 0 \<le> equity (snd kd)"
proof -
  have a: "\<forall>kd\<in>set (AList.update ''combo_draw'' \<lparr>outs = 15, equity = 0.54\<rparr> d).
             0 \<le> equity (snd kd)"
    using assms by (rule update_nonneg) simp
  have b: "\<forall>kd\<in>set (AList.update ''combo_draw'' \<lparr>outs = 12, equity = 0.45\<rparr> d).
             0 \<le> equity (snd kd)"
    using assms by (rule update_nonneg) simp
  have ite: "\<And>P c1 c2 (x::draws) y z. P x \<Longrightarrow> P y \<Longrightarrow> P z \<Longrightarrow> P (if c1 then x else if c2 then y else z)"
    by simp
  show ?thesis
    unfolding combo_draw_def using a b assms by (rule ite)
qed

lemma identify_draws_shape:
  assumes "identify_draws hole_cards community_cards = Inr draws"
  shows "draws = [] \<or> (\<exists>c1 c2 c3 c4 hv tv. draws =
           combo_draw (overcards hv tv
             (set_if c4 ''gutshot'' \<lparr>outs = 4, equity = 0.16\<rparr>
             (set_if c3 ''oesd'' \<lparr>outs = 8, equity = 0.31\<rparr>
             (set_if c2 ''backdoor_flush'' \<lparr>outs = 1, equity = 0.04\<rparr>
             (set_if c1 ''flush_draw'' \<lparr>outs = 9, equity = 0.35\<rparr> []))))))"
proof (cases community_cards)
  case Nil
  with assms show ?thesis by (simp add: identify_draws_def)
next
  case (Cons c0 cs)
  show ?thesis
  proof (cases "rev (sort (map card_value hole_cards)) = []")
    case True
    with assms Cons show ?thesis by (simp add: identify_draws_def Let_def)
  next
    case False
    with assms Cons show ?thesis
      unfolding identify_draws_def Let_def
      by (simp only: list.case if_False sum.inject) blast
  qed
qed

lemma identify_draws_nonneg:
  assumes "identify_draws hole_cards community_cards = Inr draws"
  shows "\<forall>kd\<in>set draws. 0 \<le> equity (snd kd)"
proof -
  have "\<forall>kd\<in>set (combo_draw (overcards hv tv
             (set_if c4 ''gutshot'' \<lparr>outs = 4, equity = 0.16\<rparr>
             (set_if c3 ''oesd'' \<lparr>outs = 8, equity = 0.31\<rparr>
             (set_if c2 ''backdoor_flush'' \<lparr>outs = 1, equity = 0.04\<rparr>
             (set_if c1 ''flush_draw'' \<lparr>outs = 9, equity = 0.35\<rparr> [])))))).
          0 \<le> equity (snd kd)" for c1 c2 c3 c4 hv tv
    by (intro combo_draw_nonneg overcards_nonneg set_if_nonneg) simp_all
  with identify_draws_shape [OF assms] show ?thesis by fastforce
qed

lemma ex_identify: "identify_draws ex_hole ex_board = Inr ex_draws"
  by code_simp

lemma ex_cte: "calculate_total_equity ex_draws = 0.54"
  by (simp add: calculate_total_equity_def ex_draws_def)

text \<open>
  Claim C9. For every draw-finding map, \<^verbatim>\<open>calculate_total_equity\<close> is 0 on the empty map
  and otherwise the maximum of the findings' equities, which is the equity of one single
  finding; it is non-negative whenever the equities are (in particular on every map that
  \<^verbatim>\<open>identify_draws\<close> returns), and it is strictly below the sum of the equities as soon as
  there are two findings with positive equity, so it is never the sum.
\<close>

theorem calculate_total_equity_is_max:
  "(draws = [] \<longrightarrow> calculate_total_equity draws = 0) \<and>
   (draws \<noteq> [] \<longrightarrow>
      calculate_total_equity draws = Max (set (map (\<lambda>kd. equity (snd kd)) draws)) \<and>
      (\<exists>kd\<in>set draws. calculate_total_equity draws = equity (snd kd))) \<and>
   ((\<forall>kd\<in>set draws. 0 \<le> equity (snd kd)) \<longrightarrow> 0 \<le> calculate_total_equity draws) \<and>
   (identify_draws hole_cards community_cards = Inr draws \<longrightarrow>
      0 \<le> calculate_total_equity draws) \<and>
   (2 \<le> length draws \<and> (\<forall>kd\<in>set draws. 0 < equity (snd kd)) \<longrightarrow>
      calculate_total_equity draws < sum_list (map (\<lambda>kd. equity (snd kd)) draws))"
proof (intro conjI impI)
  assume "draws = []"
  then show "calculate_total_equity draws = 0" by (simp add: calculate_total_equity_def)
next
  assume "draws \<noteq> []"
  then show "calculate_total_equity draws = Max (set (map (\<lambda>kd. equity (snd kd)) draws))"
    by (rule cte_Max)
next
  assume "draws \<noteq> []"
  then show "\<exists>kd\<in>set draws. calculate_total_equity draws = equity (snd kd)"
    by (rule cte_attained)
next
  assume "\<forall>kd\<in>set draws. 0 \<le> equity (snd kd)"
  then show "0 \<le> calculate_total_equity draws" by (rule cte_nonneg)
next
  assume "identify_draws hole_cards community_cards = Inr draws"
  then show "0 \<le> calculate_total_equity draws"
    by (intro cte_nonneg identify_draws_nonneg)
next
  assume a: "2 \<le> length draws \<and> (\<forall>kd\<in>set draws. 0 < equity (snd kd))"
  then have ne: "draws \<noteq> []" by auto
  from cte_attained [OF ne]
  have mem: "calculate_total_equity draws \<in> set (map (\<lambda>kd. equity (snd kd)) draws)"
    by auto
  have pos: "\<forall>x\<in>set (map (\<lambda>kd. equity (snd kd)) draws). 0 < x" using a by auto
  have len: "2 \<le> length (map (\<lambda>kd. equity (snd kd)) draws)" using a by simp
  show "calculate_total_equity draws < sum_list (map (\<lambda>kd. equity (snd kd)) draws)"
    by (rule sum_list_pos_gt_member [OF pos len mem])
qed

theorem calculate_total_equity_is_max_witness:
  "identify_draws ex_hole ex_board = Inr ex_draws \<and> ex_draws \<noteq> [] \<and> 2 \<le> length ex_draws \<and>
   list_all (\<lambda>kd. 0 < equity (snd kd)) ex_draws \<and>
   calculate_total_equity ex_draws = 0.54 \<and>
   calculate_total_equity ex_draws = Max (set (map (\<lambda>kd. equity (snd kd)) ex_draws)) \<and>
   0 \<le> calculate_total_equity ex_draws \<and>
   calculate_total_equity ex_draws < sum_list (map (\<lambda>kd. equity (snd kd)) ex_draws) \<and>
   calculate_total_equity [] = 0"
proof -
  have ne: "ex_draws \<noteq> []" by (simp add: ex_draws_def)
  have len: "2 \<le> length ex_draws" by (simp add: ex_draws_def)
  have pos: "\<forall>kd\<in>set ex_draws. 0 < equity (snd kd)" by (simp add: ex_draws_def)
  note m = calculate_total_equity_is_max [of ex_draws ex_hole ex_board]
  note m0 = calculate_total_equity_is_max [of "[]" ex_hole ex_board]
  have pos': "list_all (\<lambda>kd. 0 < equity (snd kd)) ex_draws" by (simp add: ex_draws_def)
  show ?thesis using m m0 ne len pos pos' ex_identify ex_cte by blast
qed

section \<open>PositionAwareness: thresholds by position\<close>

text \<open>
  Claim C8 (amended). For every positive base threshold, the pre-community entry threshold
  that \<^verbatim>\<open>_preflop_decision\<close> computes, the base times its own multiplier (EP 1.0,
  BTN 0.93), is strictly lower on the button than in early position.
\<close>

theorem preflop_threshold_btn_below_ep:
  "0 < base \<Longrightarrow>
     preflop_adjusted_threshold base ''BTN'' = base * 0.93 \<and>
     preflop_adjusted_threshold base ''EP'' = base \<and>
     preflop_adjusted_threshold base ''BTN'' < preflop_adjusted_threshold base ''EP''"
  by (simp add: preflop_adjusted_threshold_def dict_get_def position_multipliers_def)

theorem preflop_threshold_btn_below_ep_witness:
  "0 < TIER3_THRESHOLD \<and>
   preflop_adjusted_threshold TIER3_THRESHOLD ''BTN'' = 0.558 \<and>
   preflop_adjusted_threshold TIER3_THRESHOLD ''EP'' = 0.6 \<and>
   preflop_adjusted_threshold TIER3_THRESHOLD ''BTN'' < preflop_adjusted_threshold TIER3_THRESHOLD ''EP''"
  using preflop_threshold_btn_below_ep [of TIER3_THRESHOLD]
  by (simp add: TIER3_THRESHOLD_def)

text \<open>
  As stated, for every base and for \<^verbatim>\<open>get_adjusted_threshold\<close> with
  \<^verbatim>\<open>POSITION_MULTIPLIERS\<close> (EP 0.70, BTN 1.25), the claim fails: at base 0.6 the button
  gets 0.75 and early position 0.42; and at base 0 no multiplier table separates the two.
\<close>

theorem btn_threshold_counterexample:
  "get_adjusted_threshold 0.6 ''BTN'' = 0.75 \<and> get_adjusted_threshold 0.6 ''EP'' = 0.42 \<and>
   \<not> get_adjusted_threshold 0.6 ''BTN'' < get_adjusted_threshold 0.6 ''EP'' \<and>
   \<not> preflop_adjusted_threshold 0 ''BTN'' < preflop_adjusted_threshold 0 ''EP''"
  by (simp add: get_adjusted_threshold_def preflop_adjusted_threshold_def dict_get_def
      POSITION_MULTIPLIERS_def position_multipliers_def)

text \<open>With \<^verbatim>\<open>POSITION_MULTIPLIERS\<close> the order is the opposite one for every positive base.\<close>

lemma get_adjusted_threshold_btn_above_ep:
  "0 < base \<Longrightarrow> get_adjusted_threshold base ''EP'' < get_adjusted_threshold base ''BTN''"
  by (simp add: get_adjusted_threshold_def dict_get_def POSITION_MULTIPLIERS_def)

section \<open>PotOddsCalculator: implied odds\<close>

text \<open>
  Claim C5 (amended). When the call cost is at most 0, \<^verbatim>\<open>calculate_implied_odds\<close> returns
  exactly the two entries \<^verbatim>\<open>total_equity = 0\<close> and \<^verbatim>\<open>should_call = True\<close>. When the call
  cost is positive (and pot plus call cost is not 0), it returns
  \<^verbatim>\<open>direct_equity_needed = callCost / (pot + callCost)\<close>, \<^verbatim>\<open>implied_equity_needed\<close> equal to
  \<^verbatim>\<open>callCost / totalPotential\<close> when \<^verbatim>\<open>totalPotential > callCost\<close> and to the direct value
  otherwise, and \<^verbatim>\<open>should_call\<close> true exactly when the draw equity exceeds the implied
  value times 0.9.
\<close>

theorem implied_odds_contract:
  "(amount_to_call \<le> 0 \<longrightarrow>
      calculate_implied_odds amount_to_call total_pot effective_stack street draw_equity =
        Inr [(''total_equity'', PFloat 0), (''should_call'', PBool True)]) \<and>
   (0 < amount_to_call \<and> total_pot + amount_to_call \<noteq> 0 \<longrightarrow>
      (let multiplier = (if street = ''flop'' then 2.5 else if street = ''turn'' then 1.3 else 1);
           potential_future_win = min (effective_stack * 0.3 * draw_equity * multiplier)
                                      (effective_stack * 0.5);
           total_potential = of_int total_pot + potential_future_win;
           direct_needed = of_int amount_to_call / of_int (total_pot + amount_to_call);
           implied_needed = (if of_int amount_to_call < total_potential
                             then of_int amount_to_call / total_potential else direct_needed)
       in \<exists>d. calculate_implied_odds amount_to_call total_pot effective_stack street draw_equity
                 = Inr d \<and>
              map_of d ''direct_equity_needed'' = Some (PFloat direct_needed) \<and>
              map_of d ''implied_equity_needed'' = Some (PFloat implied_needed) \<and>
              map_of d ''potential_future_win'' = Some (PFloat potential_future_win) \<and>
              map_of d ''should_call'' = Some (PBool (implied_needed * 0.9 < draw_equity))))"
  by (simp add: calculate_implied_odds_def Let_def dict_get_def street_multiplier_def)

theorem implied_odds_contract_witness:
  "(0::int) < 50 \<and> (100::int) + 50 \<noteq> 0 \<and>
   calculate_implied_odds 50 100 1000 ''flop'' 0.35 =
     Inr [(''direct_equity_needed'', PFloat (1/3)),
          (''implied_equity_needed'', PFloat (4/29)),
          (''potential_future_win'', PFloat 262.5),
          (''should_call'', PBool True)] \<and>
   calculate_implied_odds 0 100 1000 ''flop'' 0.35 =
     Inr [(''total_equity'', PFloat 0), (''should_call'', PBool True)]"
  using implied_odds_contract [of 50 100 1000 "''flop''" "0.35"]
        implied_odds_contract [of 0 100 1000 "''flop''" "0.35"]
  by (simp add: calculate_implied_odds_def Let_def dict_get_def street_multiplier_def)

text \<open>
  As stated the claim fails for a free call: the returned dictionary has no
  \<^verbatim>\<open>direct_equity_needed\<close> and no \<^verbatim>\<open>implied_equity_needed\<close> entry, so neither is 0.
\<close>

theorem implied_odds_free_call_counterexample:
  "calculate_implied_odds 0 100 1000 ''flop'' 0.2 =
     Inr [(''total_equity'', PFloat 0), (''should_call'', PBool True)] \<and>
   map_of [(''total_equity'', PFloat 0), (''should_call'', PBool True)] ''direct_equity_needed'' = None \<and>
   map_of [(''total_equity'', PFloat 0), (''should_call'', PBool True)] ''implied_equity_needed'' = None"
  by (simp add: calculate_implied_odds_def)

section \<open>SPRStrategy: ratio and regimes\<close>

text \<open>
  Claim C7 (amended). \<^verbatim>\<open>calculate_spr\<close> is the stack divided by the pot for a positive pot
  and infinite for a pot of at most 0; for a positive stack it is strictly decreasing in the
  pot as soon as the larger pot is positive. The regimes are \<open>spr > 15\<close> (commit threshold
  0.75), \<open>7 < spr \<le> 15\<close> (0.65, so 15 itself is here), \<open>3 < spr \<le> 7\<close> (0.55) and
  \<open>spr \<le> 3\<close> (0.45); speculative play is allowed above 15 and, with draw equity above
  0.25, above 7; push-or-fold mode is set exactly when \<open>spr \<le> 3\<close>.
\<close>

theorem spr_decreasing_and_regimes:
  "(pot \<le> 0 \<longrightarrow> calculate_spr stack pot = PosInf) \<and>
   (0 < pot \<longrightarrow> calculate_spr stack pot = Finite (stack / of_int pot)) \<and>
   (0 < stack \<and> pot < pot' \<and> 0 < pot' \<longrightarrow>
      pyfloat_less (calculate_spr stack pot') (calculate_spr stack pot)) \<and>
   commit_threshold (get_strategy_by_spr spr hs de) =
     (if gt spr 15 then 0.75 else if gt spr 7 then 0.65 else if gt spr 3 then 0.55 else 0.45) \<and>
   commit_threshold (get_strategy_by_spr (Finite 15) hs de) = 0.65 \<and>
   play_speculative (get_strategy_by_spr spr hs de) = (gt spr 15 \<or> gt spr 7 \<and> 0.25 < de) \<and>
   (push_fold (get_strategy_by_spr spr hs de) = Some True) = (\<not> gt spr 3)"
proof -
  have mono: "pyfloat_less (calculate_spr stack pot') (calculate_spr stack pot)"
    if "0 < stack" "pot < pot'" "0 < pot'"
  proof (cases "pot \<le> 0")
    case True
    then show ?thesis using that by (simp add: calculate_spr_def)
  next
    case False
    then have "(0::rat) < of_int pot" "(of_int pot :: rat) < of_int pot'" using that by simp_all
    then have "stack / of_int pot' < stack / of_int pot"
      using that(1) by (simp add: frac_less2)
    then show ?thesis using False that by (simp add: calculate_spr_def)
  qed
  have g: "gt spr 7 \<Longrightarrow> gt spr 3" "gt spr 15 \<Longrightarrow> gt spr 7"
    by (cases spr; simp)+
  have regimes:
    "commit_threshold (get_strategy_by_spr spr hs de) =
       (if gt spr 15 then 0.75 else if gt spr 7 then 0.65 else if gt spr 3 then 0.55 else 0.45)"
    "commit_threshold (get_strategy_by_spr (Finite 15) hs de) = 0.65"
    "play_speculative (get_strategy_by_spr spr hs de) = (gt spr 15 \<or> gt spr 7 \<and> 0.25 < de)"
    "(push_fold (get_strategy_by_spr spr hs de) = Some True) = (\<not> gt spr 3)"
    using g by (auto simp add: get_strategy_by_spr_def)
  have spr: "pot \<le> 0 \<longrightarrow> calculate_spr stack pot = PosInf"
    "0 < pot \<longrightarrow> calculate_spr stack pot = Finite (stack / of_int pot)"
    by (simp_all add: calculate_spr_def)
  show ?thesis
    using mono regimes spr by blast
qed

theorem spr_decreasing_and_regimes_witness:
  "(0::rat) < 1000 \<and> (100::int) < 200 \<and>
   calculate_spr 1000 100 = Finite 10 \<and> calculate_spr 1000 200 = Finite 5 \<and>
   calculate_spr 1000 0 = PosInf \<and>
   pyfloat_less (calculate_spr 1000 200) (calculate_spr 1000 100) \<and>
   commit_threshold (get_strategy_by_spr (calculate_spr 1000 100) 0.5 0.3) = 0.65 \<and>
   push_fold (get_strategy_by_spr (calculate_spr 1000 400) 0.5 0.3) = Some True"
  using spr_decreasing_and_regimes [of 100 1000 200 "calculate_spr 1000 100" "0.5" "0.3"]
        spr_decreasing_and_regimes [of 0 1000 200 "calculate_spr 1000 400" "0.5" "0.3"]
  by (simp add: calculate_spr_def)

text \<open>As stated, for every fixed stack, the claim fails: with an empty stack the ratio is 0
  for every positive pot.\<close>

theorem spr_strict_monotone_counterexample:
  "calculate_spr 0 1 = Finite 0 \<and> calculate_spr 0 2 = Finite 0 \<and>
   \<not> pyfloat_less (calculate_spr 0 2) (calculate_spr 0 1)"
  by (simp add: calculate_spr_def)

section \<open>SharkAI: bet and raise sizing\<close>

lemma py_int_percent:
  assumes "0 \<le> p" "0 \<le> n"
  shows "py_int (of_int p * (of_int n / 100)) = (p * n) div 100"
proof -
  have "of_int p * (of_int n / 100) = (of_int (p * n) / of_int 100 :: rat)" by simp
  moreover have "(0::rat) \<le> of_int (p * n) / of_int 100" using assms by simp
  ultimately show ?thesis unfolding py_int_def
    by (simp only: floor_divide_of_int_eq if_True)
qed

lemma py_int_fractions:
  assumes "0 \<le> p"
  shows "py_int (of_int p * 0.75) = (p * 75) div 100"
    and "py_int (of_int p * 0.66) = (p * 66) div 100"
    and "py_int (of_int p * 0.60) = (p * 60) div 100"
    and "py_int (of_int p * 0.50) = (p * 50) div 100"
    and "py_int (of_int p * 0.33) = (p * 33) div 100"
    and "py_int (of_int p * 0.25) = (p * 25) div 100"
  using py_int_percent [OF assms, of 75] py_int_percent [OF assms, of 66]
        py_int_percent [OF assms, of 60] py_int_percent [OF assms, of 50]
        py_int_percent [OF assms, of 33] py_int_percent [OF assms, of 25]
  by simp_all

lemma calculate_amount_bands:
  assumes "\<not> list_ex (aeq action) [''fold'', ''check'', ''call'']" "\<not> aeq action ''all_in''"
  shows "calculate_amount aeq action player_chips current_bet hand_strength draw_equity total_pot =
     (let pot = (if total_pot \<le> 0 then 100 else total_pot);
          strength = hand_strength + draw_equity * 0.5
      in if current_bet = 0 then
           max (2 * 20)
             (if 0.80 < strength then pot * 75 div 100
              else if 0.60 < strength then pot * 66 div 100
              else if 0.25 < draw_equity then pot * 60 div 100
              else if 0.45 < strength then pot * 33 div 100
              else pot * 25 div 100)
         else
           max (2 * 20)
             ((if 0.80 < strength then pot * 75 div 100
               else if 0.60 < strength then pot * 66 div 100
               else if 0.25 < draw_equity then pot * 60 div 100
               else if 0.45 < strength then pot * 50 div 100
               else current_bet + 2 * 20) - current_bet))"
proof -
  define pot where "pot = (if total_pot \<le> 0 then 100 else total_pot)"
  have "0 \<le> pot" by (simp add: pot_def)
  note fr = py_int_fractions [OF this]
  have a: "list_ex (aeq action) [''fold'', ''check'', ''call''] = False"
    "aeq action ''all_in'' = False" using assms by simp_all
  have m: "max (2 * 20) (max 0 x) = max (2 * 20) x" "(20::int) * 2 = 2 * 20" for x :: int
    by simp_all
  show ?thesis
    unfolding calculate_amount_def Let_def pot_def [symmetric]
    by (simp only: a if_False fr m if_distrib [of "\<lambda>t. t - current_bet"] add_diff_cancel_left')
qed

text \<open>
  Claim C4 (amended). For an action that is none of fold, check, call and all-in, with the pot
  replaced by 100 when it is not positive, the big blind 20 and the strength
  \<open>hand_strength + draw_equity * 0.5\<close>: with no outstanding bet the size is
  \<open>max (2 * bigBlind) \<lfloor>pot * fraction\<rfloor>\<close>, the fraction chosen by band (above 0.80: 0.75,
  above 0.60: 0.66, draw equity above 0.25: 0.60, above 0.45: 0.33, else 0.25); facing a bet
  the target total is \<open>\<lfloor>pot * fraction\<rfloor>\<close> with the fractions 0.75, 0.66, 0.60 and, above
  0.45, 0.50, and \<open>currentBet + 2 * bigBlind\<close> in the weakest band, and the raise increment
  is \<open>max (2 * bigBlind) (target - currentBet)\<close>.
\<close>

theorem bet_sizing:
  assumes "\<not> list_ex (aeq action) [''fold'', ''check'', ''call'']" "\<not> aeq action ''all_in''"
  shows "calculate_amount aeq action player_chips current_bet hand_strength draw_equity total_pot =
     (let pot = (if total_pot \<le> 0 then 100 else total_pot);
          strength = hand_strength + draw_equity * 0.5
      in if current_bet = 0 then
           max (2 * 20)
             (if 0.80 < strength then pot * 75 div 100
              else if 0.60 < strength then pot * 66 div 100
              else if 0.25 < draw_equity then pot * 60 div 100
              else if 0.45 < strength then pot * 33 div 100
              else pot * 25 div 100)
         else
           max (2 * 20)
             ((if 0.80 < strength then pot * 75 div 100
               else if 0.60 < strength then pot * 66 div 100
               else if 0.25 < draw_equity then pot * 60 div 100
               else if 0.45 < strength then pot * 50 div 100
               else current_bet + 2 * 20) - current_bet))"
  using assms by (rule calculate_amount_bands)

theorem bet_sizing_witness:
  "\<not> list_ex (plain_enum BET) [''fold'', ''check'', ''call''] \<and> \<not> plain_enum BET ''all_in'' \<and>
   calculate_amount plain_enum BET 1000 0 0.85 0 200 = 150 \<and>
   calculate_amount plain_enum RAISE 1000 40 0.85 0 200 = 110"
  using bet_sizing [of plain_enum BET 1000 0 "0.85" 0 200]
        bet_sizing [of plain_enum RAISE 1000 40 "0.85" 0 200]
  by (simp add: plain_enum_def)

text \<open>
  As stated the claim fails twice: facing a bet the band above 0.45 takes half the pot, not
  0.33 of it (pot 200, bet 20, strength 0.5: increment 80, not 46), and the product is
  truncated to an integer (pot 150, strength 0.85: 112, not 112.5).
\<close>

theorem bet_sizing_counterexample:
  "calculate_amount plain_enum RAISE 1000 20 0.5 0 200 = 80 \<and>
   max (2 * 20) (\<lfloor>200 * 0.33 :: rat\<rfloor> - 20) = 46 \<and>
   calculate_amount plain_enum BET 1000 0 0.85 0 150 = 112 \<and>
   max (2 * 20) (150 * 0.75 :: rat) = 112.5"
  using calculate_amount_bands [of plain_enum RAISE 1000 20 "0.5" 0 200]
        calculate_amount_bands [of plain_enum BET 1000 0 "0.85" 0 150]
  by (simp add: plain_enum_def)

section \<open>SharkAI: the weighted-sampling step\<close>

lemma weights_keys:
  "map fst (calculate_postflop_weights hs de cfg) =
     [''fold'', ''check'', ''call'', ''bet'', ''raise'', ''all_in'']"
  by (simp add: calculate_postflop_weights_def Let_def dict_update_def)

lemma weights_all_in:
  "map_of (calculate_postflop_weights hs de cfg) ''all_in'' = Some 0"
  by (simp add: calculate_postflop_weights_def Let_def dict_update_def)

lemma valid_subset: "set (valid_weights av w) \<subseteq> {kv \<in> set w. fst kv \<in> set av \<and> 0 < snd kv}"
  by (auto simp: valid_weights_def Let_def AList.delete_eq)

lemma valid_no_fold:
  assumes "''check'' \<in> set av"
  shows "''fold'' \<notin> fst ` set (valid_weights av w)"
proof (cases "dict_has (filter (\<lambda>kv. fst kv \<in> set av \<and> 0 < snd kv) w) ''fold''")
  case True
  then show ?thesis using assms by (auto simp: valid_weights_def Let_def AList.delete_eq)
next
  case False
  then have "''fold'' \<notin> fst ` set (filter (\<lambda>kv. fst kv \<in> set av \<and> 0 < snd kv) w)"
    by (simp add: dict_has_def map_of_eq_None_iff)
  then show ?thesis using False by (simp add: valid_weights_def Let_def)
qed

lemma map_of_unique_key:
  "distinct (map fst w) \<Longrightarrow> (k, v) \<in> set w \<Longrightarrow> map_of w k = Some v"
  by simp

lemma valid_no_all_in:
  "''all_in'' \<notin> fst ` set (valid_weights av (calculate_postflop_weights hs de cfg))"
proof
  let ?w = "calculate_postflop_weights hs de cfg"
  assume "''all_in'' \<in> fst ` set (valid_weights av ?w)"
  then obtain v where v: "(''all_in'', v) \<in> set ?w" "0 < v"
    using valid_subset [of av ?w] by auto
  have "distinct (map fst ?w)" by (simp add: weights_keys)
  then have "map_of ?w ''all_in'' = Some v" using v(1) by simp
  then show False using v(2) by (simp add: weights_all_in)
qed

lemma valid_keys:
  "fst ` set (valid_weights av (calculate_postflop_weights hs de cfg))
     \<subseteq> {''fold'', ''check'', ''call'', ''bet'', ''raise'', ''all_in''}"
proof -
  let ?w = "calculate_postflop_weights hs de cfg"
  have "fst ` set (valid_weights av ?w) \<subseteq> fst ` set ?w"
    using valid_subset [of av ?w] by auto
  also have "fst ` set ?w = set (map fst ?w)" by simp
  also have "\<dots> = {''fold'', ''check'', ''call'', ''bet'', ''raise'', ''all_in''}"
    unfolding weights_keys by simp
  finally show ?thesis .
qed

lemma scan_in: "weighted_scan r c ws = Some a \<Longrightarrow> a \<in> fst ` set ws"
  by (induction ws arbitrary: c) (auto split: if_splits)

lemma sum_list_pos:
  fixes xs :: "rat list"
  shows "xs \<noteq> [] \<Longrightarrow> \<forall>x\<in>set xs. 0 < x \<Longrightarrow> 0 < sum_list xs"
proof (induction xs)
  case Nil then show ?case by simp
next
  case (Cons x xs)
  have "0 \<le> sum_list xs" using Cons.prems by (intro sum_list_nonneg) (auto intro: less_imp_le)
  moreover have "0 < x" using Cons.prems by simp
  ultimately show ?case by simp
qed

lemma weighted_choice_in:
  assumes "ws \<noteq> []" "\<forall>kv\<in>set ws. 0 < snd kv"
  shows "\<exists>a. weighted_choice u ws = Inr a \<and> a \<in> fst ` set ws"
proof -
  have "0 < sum_list (map snd ws)" using assms by (intro sum_list_pos) auto
  then have t: "sum_list (map snd ws) \<noteq> 0" by simp
  show ?thesis
  proof (cases "weighted_scan (u * sum_list (map snd ws)) 0 ws")
    case None
    then show ?thesis using t assms(1) by (simp add: weighted_choice_def Let_def)
  next
    case (Some a)
    then show ?thesis using t scan_in [OF Some] by (simp add: weighted_choice_def Let_def)
  qed
qed

lemma action_of_name:
  assumes "a \<in> {''fold'', ''check'', ''call'', ''bet'', ''raise'', ''all_in''}"
  shows "(dict_get action_map a FOLD = FOLD) = (a = ''fold'')"
    and "(dict_get action_map a FOLD = ALL_IN) = (a = ''all_in'')"
  using assms by (auto simp: dict_get_def action_map_def)

lemma weighted_step_empty:
  "valid_weights av (calculate_postflop_weights hs de cfg) = [] \<Longrightarrow>
   weighted_step u aeq pc av cb hs de cfg pot = Inr (FOLD, 0)"
  by (simp add: weighted_step_def Let_def)

lemma weighted_step_nonempty:
  assumes "valid_weights av (calculate_postflop_weights hs de cfg) \<noteq> []"
  shows "\<exists>a \<in> fst ` set (valid_weights av (calculate_postflop_weights hs de cfg)).
           weighted_step u aeq pc av cb hs de cfg pot =
             Inr (dict_get action_map a FOLD,
                  calculate_amount aeq (dict_get action_map a FOLD) pc cb hs de pot)"
proof -
  let ?v = "valid_weights av (calculate_postflop_weights hs de cfg)"
  have "\<forall>kv\<in>set ?v. 0 < snd kv" using valid_subset by fastforce
  from weighted_choice_in [OF assms this, of u]
  obtain a where "weighted_choice u ?v = Inr a" "a \<in> fst ` set ?v" by blast
  then show ?thesis using assms by (auto simp: weighted_step_def Let_def)
qed

lemma weighted_step_not_all_in:
  assumes "weighted_step u aeq pc av cb hs de cfg pot = Inr (act, amt)"
  shows "act \<noteq> ALL_IN"
proof (cases "valid_weights av (calculate_postflop_weights hs de cfg) = []")
  case True
  from weighted_step_empty [OF True] assms show ?thesis by simp
next
  case False
  from weighted_step_nonempty [OF False, of u aeq pc cb pot] assms
  obtain a where a: "a \<in> fst ` set (valid_weights av (calculate_postflop_weights hs de cfg))"
    and act: "act = dict_get action_map a FOLD" by auto
  have "a \<noteq> ''all_in''" using a valid_no_all_in by metis
  moreover have "a \<in> {''fold'', ''check'', ''call'', ''bet'', ''raise'', ''all_in''}"
    using a valid_keys by blast
  ultimately show ?thesis using action_of_name(2) act by simp
qed

lemma weighted_step_fold_only_if_empty:
  assumes "''check'' \<in> set av"
    and "weighted_step u aeq pc av cb hs de cfg pot = Inr (FOLD, amt)"
  shows "valid_weights av (calculate_postflop_weights hs de cfg) = []"
proof (rule ccontr)
  assume ne: "valid_weights av (calculate_postflop_weights hs de cfg) \<noteq> []"
  from weighted_step_nonempty [OF ne, of u aeq pc cb pot] assms(2)
  obtain a where a: "a \<in> fst ` set (valid_weights av (calculate_postflop_weights hs de cfg))"
    and act: "dict_get action_map a FOLD = FOLD" by (metis Pair_inject sum.inject(2))
  have "a \<in> {''fold'', ''check'', ''call'', ''bet'', ''raise'', ''all_in''}"
    using a valid_keys by blast
  then have "a = ''fold''" using action_of_name(1) act by simp
  then show False using a valid_no_fold [OF assms(1)] by metis
qed

lemma draw_step_actions:
  "draw_step av cb hs de ic = Inr (Some (act, amt)) \<Longrightarrow>
     (act = CALL \<and> amt = 0) \<or> (act = RAISE \<and> amt = max 40 (cb + 20))"
  by (auto simp: draw_step_def split: if_splits option.splits)

lemma preflop_actions:
  "fst (preflop_decision av atc hs pos) \<in> {FOLD, CHECK, CALL, BET, RAISE}"
  unfolding preflop_decision_def Let_def by (simp split: if_splits)

section \<open>SharkAI: concrete decisions\<close>

lemma ex_draws_flop: "identify_draws (hole_cards_of ex_shark) (community_cards_of ex_flop) = Inr []"
  by code_simp

lemma ex_spr: "calculate_spr (effective_stack_of ex_shark (active_players_of ex_flop)) (pot_of ex_flop) = Finite 1"
  by (simp add: calculate_spr_def effective_stack_of_def active_players_of_def pot_of_def
      ex_flop_def ex_shark_def ex_villain_def)

lemma ex_push_fold_fold:
  "get_action initial_base_config 0 plain_enum ex_shark ex_legal 0 ex_flop 0.2 0.2 = Inr (FOLD, 0)"
  unfolding get_action_def Let_def ex_draws_flop ex_spr
  by (simp add: calculate_total_equity_def calculate_direct_odds_def calculate_implied_odds_def
      get_strategy_by_spr_def postflop_decision_def ex_flop_def)

lemma ex_push_fold_all_in:
  "get_action initial_base_config 0 plain_enum ex_shark ex_legal 0 ex_flop 0.9 0.9 = Inr (ALL_IN, 100)"
  unfolding get_action_def Let_def ex_draws_flop ex_spr
  by (simp add: calculate_total_equity_def calculate_direct_odds_def calculate_implied_odds_def
      get_strategy_by_spr_def postflop_decision_def ex_flop_def ex_shark_def)

lemma ex_valid_empty:
  "valid_weights [''fold'', ''check''] (calculate_postflop_weights 0.95 0.54 initial_base_config) = []"
  by code_simp

section \<open>SharkAI: drawing hands after the flop\<close>

lemma postflop_draw_call:
  assumes "push_fold g \<noteq> Some True" "0.15 < de" "map_of ic ''should_call'' = Some sc"
    "truthy sc" "''call'' \<in> set av"
  shows "postflop_decision u aeq pc av cb hs de te ic g cfg pot = Inr (CALL, 0)"
  using assms by (cases "push_fold g") (simp_all add: postflop_decision_def draw_step_def)

lemma postflop_draw_raise:
  assumes "push_fold g \<noteq> Some True" "0.15 < de" "map_of ic ''should_call'' = Some sc"
    "\<not> (truthy sc \<and> ''call'' \<in> set av)" "0.30 < de" "''raise'' \<in> set av" "hs < 0.5"
  shows "postflop_decision u aeq pc av cb hs de te ic g cfg pot = Inr (RAISE, max 40 (cb + 20))"
  using assms by (cases "push_fold g") (auto simp add: postflop_decision_def draw_step_def)

lemma draw_step_call_iff:
  assumes "map_of ic ''should_call'' = Some sc"
  shows "(draw_step av cb hs de ic = Inr (Some (CALL, amt))) =
           (0.15 < de \<and> truthy sc \<and> ''call'' \<in> set av \<and> amt = 0)"
  using assms by (auto simp: draw_step_def)

lemma draw_step_raise_iff:
  assumes "map_of ic ''should_call'' = Some sc"
  shows "(draw_step av cb hs de ic = Inr (Some (RAISE, amt))) =
           (0.30 < de \<and> hs < 0.5 \<and> ''raise'' \<in> set av \<and>
            \<not> (truthy sc \<and> ''call'' \<in> set av) \<and> amt = max 40 (cb + 20))"
  using assms by (auto simp: draw_step_def)

lemma draw_step_none_iff:
  assumes "map_of ic ''should_call'' = Some sc"
  shows "(draw_step av cb hs de ic = Inr None) =
           (\<not> (0.15 < de \<and> truthy sc \<and> ''call'' \<in> set av) \<and>
            \<not> (0.30 < de \<and> hs < 0.5 \<and> ''raise'' \<in> set av))"
  using assms by (auto simp: draw_step_def)

lemma postflop_after_draw_step:
  assumes "push_fold g \<noteq> Some True"
  shows "postflop_decision u aeq pc av cb hs de te ic g cfg pot =
           (case draw_step av cb hs de ic of
              Inl e \<Rightarrow> Inl e
            | Inr (Some r) \<Rightarrow> Inr r
            | Inr None \<Rightarrow> weighted_step u aeq pc av cb hs de cfg pot)"
  using assms by (cases "push_fold g") (simp_all add: postflop_decision_def)

text \<open>
  Claim C2 (amended). Step 2 of the post-community decision, with the \<^verbatim>\<open>should_call\<close> entry
  of the implied-odds result: it returns call (amount 0) exactly when the draw equity exceeds
  0.15, \<^verbatim>\<open>should_call\<close> holds and call is legal; it returns the semi-bluff raise, to
  \<open>max 40 (currentBet + 20)\<close>, exactly when the draw equity exceeds 0.30, the hand strength is
  below 0.5, raise is legal and that call did not fire; it returns nothing else, and in every
  other case it hands over to the weighted-sampling step. Outside push-or-fold mode the
  post-community decision is the result of step 2 when there is one and the result of the
  weighted-sampling step otherwise. So call-on-odds takes priority and a caller is never
  overridden to a raiser.
\<close>

theorem draw_step_call_then_semi_bluff:
  assumes "map_of ic ''should_call'' = Some sc"
  shows "(draw_step av cb hs de ic = Inr (Some (CALL, amt))) =
           (0.15 < de \<and> truthy sc \<and> ''call'' \<in> set av \<and> amt = 0) \<and>
         (draw_step av cb hs de ic = Inr (Some (RAISE, amt))) =
           (0.30 < de \<and> hs < 0.5 \<and> ''raise'' \<in> set av \<and>
            \<not> (truthy sc \<and> ''call'' \<in> set av) \<and> amt = max 40 (cb + 20)) \<and>
         (draw_step av cb hs de ic = Inr None) =
           (\<not> (0.15 < de \<and> truthy sc \<and> ''call'' \<in> set av) \<and>
            \<not> (0.30 < de \<and> hs < 0.5 \<and> ''raise'' \<in> set av)) \<and>
         (draw_step av cb hs de ic = Inr (Some (act, amt)) \<longrightarrow> act = CALL \<or> act = RAISE) \<and>
         (push_fold g \<noteq> Some True \<longrightarrow>
            (0.15 < de \<and> truthy sc \<and> ''call'' \<in> set av \<longrightarrow>
               postflop_decision u aeq pc av cb hs de te ic g cfg pot = Inr (CALL, 0)) \<and>
            (0.30 < de \<and> hs < 0.5 \<and> ''raise'' \<in> set av \<and> \<not> (truthy sc \<and> ''call'' \<in> set av) \<longrightarrow>
               postflop_decision u aeq pc av cb hs de te ic g cfg pot
                 = Inr (RAISE, max 40 (cb + 20))) \<and>
            (\<not> (0.15 < de \<and> truthy sc \<and> ''call'' \<in> set av) \<and>
             \<not> (0.30 < de \<and> hs < 0.5 \<and> ''raise'' \<in> set av) \<longrightarrow>
               postflop_decision u aeq pc av cb hs de te ic g cfg pot
                 = weighted_step u aeq pc av cb hs de cfg pot))"
proof (intro conjI impI)
  show "(draw_step av cb hs de ic = Inr (Some (CALL, amt))) =
           (0.15 < de \<and> truthy sc \<and> ''call'' \<in> set av \<and> amt = 0)"
    by (rule draw_step_call_iff [OF assms])
  show "(draw_step av cb hs de ic = Inr (Some (RAISE, amt))) =
           (0.30 < de \<and> hs < 0.5 \<and> ''raise'' \<in> set av \<and>
            \<not> (truthy sc \<and> ''call'' \<in> set av) \<and> amt = max 40 (cb + 20))"
    by (rule draw_step_raise_iff [OF assms])
  show "(draw_step av cb hs de ic = Inr None) =
           (\<not> (0.15 < de \<and> truthy sc \<and> ''call'' \<in> set av) \<and>
            \<not> (0.30 < de \<and> hs < 0.5 \<and> ''raise'' \<in> set av))"
    by (rule draw_step_none_iff [OF assms])
next
  assume "draw_step av cb hs de ic = Inr (Some (act, amt))"
  from draw_step_actions [OF this] show "act = CALL \<or> act = RAISE" by blast
next
  assume pf: "push_fold g \<noteq> Some True"
  note p = postflop_after_draw_step [OF pf, of u aeq pc av cb hs de te ic cfg pot]
  {
    assume "0.15 < de \<and> truthy sc \<and> ''call'' \<in> set av"
    then have "draw_step av cb hs de ic = Inr (Some (CALL, 0))"
      using draw_step_call_iff [OF assms, of av cb hs de 0] by simp
    then show "postflop_decision u aeq pc av cb hs de te ic g cfg pot = Inr (CALL, 0)"
      using p by simp
  }
  {
    assume "0.30 < de \<and> hs < 0.5 \<and> ''raise'' \<in> set av \<and> \<not> (truthy sc \<and> ''call'' \<in> set av)"
    then have "draw_step av cb hs de ic = Inr (Some (RAISE, max 40 (cb + 20)))"
      using draw_step_raise_iff [OF assms, of av cb hs de "max 40 (cb + 20)"] by simp
    then show "postflop_decision u aeq pc av cb hs de te ic g cfg pot
                 = Inr (RAISE, max 40 (cb + 20))"
      using p by simp
  }
  {
    assume "\<not> (0.15 < de \<and> truthy sc \<and> ''call'' \<in> set av) \<and>
             \<not> (0.30 < de \<and> hs < 0.5 \<and> ''raise'' \<in> set av)"
    then have "draw_step av cb hs de ic = Inr None"
      using draw_step_none_iff [OF assms, of av cb hs de] by simp
    then show "postflop_decision u aeq pc av cb hs de te ic g cfg pot
                 = weighted_step u aeq pc av cb hs de cfg pot"
      using p by simp
  }
qed

theorem draw_step_call_then_semi_bluff_witness:
  "map_of ex_implied ''should_call'' = Some (PBool True) \<and>
   push_fold ex_guidance \<noteq> Some True \<and>
   calculate_implied_odds 50 100 1000 ''flop'' 0.35 = Inr ex_implied \<and>
   draw_step [''fold'', ''call'', ''raise''] 50 0.3 0.35 ex_implied = Inr (Some (CALL, 0)) \<and>
   draw_step [''fold'', ''call'', ''raise''] 50 0.3 0.35 ex_implied \<noteq> Inr (Some (RAISE, 70)) \<and>
   draw_step [''fold'', ''raise''] 50 0.3 0.35 ex_implied = Inr (Some (RAISE, 70)) \<and>
   draw_step [''fold'', ''raise''] 50 0.6 0.35 ex_implied = Inr None \<and>
   postflop_decision 0 plain_enum 1000 [''fold'', ''call'', ''raise''] 50 0.3 0.35 0.475
       ex_implied ex_guidance initial_base_config 100 = Inr (CALL, 0) \<and>
   postflop_decision 0 plain_enum 1000 [''fold'', ''raise''] 50 0.3 0.35 0.475
       ex_implied ex_guidance initial_base_config 100 = Inr (RAISE, 70)"
proof -
  have g: "push_fold ex_guidance \<noteq> Some True"
    by (simp add: ex_guidance_def get_strategy_by_spr_def)
  have m: "map_of ex_implied ''should_call'' = Some (PBool True)" by (simp add: ex_implied_def)
  have i: "calculate_implied_odds 50 100 1000 ''flop'' 0.35 = Inr ex_implied"
    by (simp add: calculate_implied_odds_def Let_def dict_get_def street_multiplier_def
        ex_implied_def)
  note a = draw_step_call_then_semi_bluff [OF m, where av = "[''fold'', ''call'', ''raise'']"
      and cb = 50 and hs = "0.3" and de = "0.35" and g = ex_guidance and u = 0
      and aeq = plain_enum and pc = 1000 and te = "0.475" and cfg = initial_base_config
      and pot = 100]
  note b = draw_step_call_then_semi_bluff [OF m, where av = "[''fold'', ''raise'']"
      and cb = 50 and hs = "0.3" and de = "0.35" and g = ex_guidance and u = 0
      and aeq = plain_enum and pc = 1000 and te = "0.475" and cfg = initial_base_config
      and pot = 100]
  note c = draw_step_call_then_semi_bluff [OF m, where av = "[''fold'', ''raise'']"
      and cb = 50 and hs = "0.6" and de = "0.35"]
  have 1: "draw_step [''fold'', ''call'', ''raise''] 50 0.3 0.35 ex_implied = Inr (Some (CALL, 0))"
    using a [where amt = 0] by simp
  have 2: "draw_step [''fold'', ''call'', ''raise''] 50 0.3 0.35 ex_implied \<noteq> Inr (Some (RAISE, 70))"
    using a [where amt = 70] by simp
  have 3: "draw_step [''fold'', ''raise''] 50 0.3 0.35 ex_implied = Inr (Some (RAISE, 70))"
    using b [where amt = 70] by simp
  have 4: "draw_step [''fold'', ''raise''] 50 0.6 0.35 ex_implied = Inr None"
    using c by simp
  have 5: "postflop_decision 0 plain_enum 1000 [''fold'', ''call'', ''raise''] 50 0.3 0.35 0.475
       ex_implied ex_guidance initial_base_config 100 = Inr (CALL, 0)"
    using a g by simp
  have 6: "postflop_decision 0 plain_enum 1000 [''fold'', ''raise''] 50 0.3 0.35 0.475
       ex_implied ex_guidance initial_base_config 100 = Inr (RAISE, 70)"
    using b g by simp
  show ?thesis using g m i 1 2 3 4 5 6 by blast
qed

text \<open>As stated the claim fails: no request that satisfies both conditions with call and
  raise legal gets a raise, because the call returns first.\<close>

theorem semi_bluff_override_counterexample:
  "\<not> (\<exists>u aeq pc av cb hs de te ic g cfg pot sc amt.
        0.15 < de \<and> map_of ic ''should_call'' = Some sc \<and> truthy sc \<and> ''call'' \<in> set av \<and>
        0.30 < de \<and> hs < 0.5 \<and> ''raise'' \<in> set av \<and>
        postflop_decision u aeq pc av cb hs de te ic g cfg pot = Inr (RAISE, amt))"
proof
  assume "\<exists>u aeq pc av cb hs de te ic g cfg pot sc amt.
        0.15 < de \<and> map_of ic ''should_call'' = Some sc \<and> truthy sc \<and> ''call'' \<in> set av \<and>
        0.30 < de \<and> hs < 0.5 \<and> ''raise'' \<in> set av \<and>
        postflop_decision u aeq pc av cb hs de te ic g cfg pot = Inr (RAISE, amt)"
  then obtain u aeq pc av cb hs and de :: rat and te ic g cfg pot sc amt where
    h: "0.15 < de" "map_of ic ''should_call'' = Some sc" "truthy sc" "''call'' \<in> set av"
    and r: "postflop_decision u aeq pc av cb hs de te ic g cfg pot = Inr (RAISE, amt)"
    by blast
  show False
  proof (cases "push_fold g = Some True")
    case True
    with r show False by (simp add: postflop_decision_def split: if_splits)
  next
    case False
    from postflop_draw_call [OF False h] r show False by simp
  qed
qed

section \<open>SharkAI: folding when check is legal\<close>

lemma valid_weights_empty_iff:
  assumes "''check'' \<in> set av"
  shows "(valid_weights av w = []) =
           (\<forall>kv\<in>set w. fst kv \<in> set av \<and> 0 < snd kv \<longrightarrow> fst kv = ''fold'')"
proof -
  let ?f = "filter (\<lambda>kv. fst kv \<in> set av \<and> 0 < snd kv) w"
  have "valid_weights av w = filter (\<lambda>kv. fst kv \<noteq> ''fold'') ?f"
  proof (cases "dict_has ?f ''fold''")
    case True
    then show ?thesis using assms
      by (simp add: valid_weights_def Let_def AList.delete_eq case_prod_unfold neq_commute)
  next
    case False
    then have "''fold'' \<notin> fst ` set ?f" by (simp add: dict_has_def map_of_eq_None_iff)
    then have "filter (\<lambda>kv. fst kv \<noteq> ''fold'') ?f = ?f"
      by (intro filter_True) force
    then show ?thesis using False by (simp add: valid_weights_def Let_def)
  qed
  then show ?thesis by (auto simp: filter_empty_conv)
qed

lemma weights_check_positive:
  assumes "\<not> 0.80 < hs * 0.7 + de * 0.3"
  shows "(''check'', 0.05) \<in> set (calculate_postflop_weights hs de cfg) \<or>
         (''check'', 0.30) \<in> set (calculate_postflop_weights hs de cfg) \<or>
         (''check'', 0.35) \<in> set (calculate_postflop_weights hs de cfg)"
  using assms by (simp add: calculate_postflop_weights_def Let_def dict_update_def)

lemma weights_top_band:
  assumes "0.80 < hs * 0.7 + de * 0.3"
  shows "calculate_postflop_weights hs de cfg =
           [(''fold'', 0), (''check'', 0), (''call'', 0.15), (''bet'', 0.35),
            (''raise'', 0.50), (''all_in'', 0)]"
  using assms by (simp add: calculate_postflop_weights_def Let_def dict_update_def)

lemma valid_empty_exactly:
  assumes c: "''check'' \<in> set av"
  shows "(valid_weights av (calculate_postflop_weights hs de cfg) = []) =
           (0.80 < hs * 0.7 + de * 0.3 \<and>
            ''call'' \<notin> set av \<and> ''bet'' \<notin> set av \<and> ''raise'' \<notin> set av)"
proof (cases "0.80 < hs * 0.7 + de * 0.3")
  case True
  show ?thesis
    unfolding valid_weights_empty_iff [OF c] weights_top_band [OF True]
    using True by auto
next
  case False
  from weights_check_positive [OF False, of cfg]
  obtain x :: rat where "(''check'', x) \<in> set (calculate_postflop_weights hs de cfg)" "0 < x"
    by fastforce
  then have "\<not> (\<forall>kv\<in>set (calculate_postflop_weights hs de cfg).
                  fst kv \<in> set av \<and> 0 < snd kv \<longrightarrow> fst kv = ''fold'')"
    using c by force
  then show ?thesis using False by (simp add: valid_weights_empty_iff [OF c])
qed

lemma weighted_step_fold_iff:
  assumes c: "''check'' \<in> set av"
  shows "(weighted_step u aeq pc av cb hs de cfg pot = Inr (FOLD, amt)) =
           (valid_weights av (calculate_postflop_weights hs de cfg) = [] \<and> amt = 0)"
proof
  assume a: "weighted_step u aeq pc av cb hs de cfg pot = Inr (FOLD, amt)"
  from weighted_step_fold_only_if_empty [OF c a]
  have e: "valid_weights av (calculate_postflop_weights hs de cfg) = []" .
  from weighted_step_empty [OF e, of u aeq pc cb pot] a have "amt = 0" by simp
  with e show "valid_weights av (calculate_postflop_weights hs de cfg) = [] \<and> amt = 0" by simp
next
  assume "valid_weights av (calculate_postflop_weights hs de cfg) = [] \<and> amt = 0"
  then show "weighted_step u aeq pc av cb hs de cfg pot = Inr (FOLD, amt)"
    using weighted_step_empty [of av hs de cfg u aeq pc cb pot] by simp
qed

lemma postflop_fold_iff:
  assumes c: "''check'' \<in> set av" and k: "map_of ic ''should_call'' = Some sc"
  shows "(postflop_decision u aeq pc av cb hs de te ic g cfg pot = Inr (FOLD, amt)) =
           (amt = 0 \<and>
            (push_fold g = Some True \<and> te < commit_threshold g \<or>
             push_fold g \<noteq> Some True \<and> 0.80 < hs * 0.7 + de * 0.3 \<and>
             ''call'' \<notin> set av \<and> ''bet'' \<notin> set av \<and> ''raise'' \<notin> set av))"
proof (cases "push_fold g = Some True")
  case True
  then show ?thesis by (auto simp add: postflop_decision_def)
next
  case False
  note p = postflop_after_draw_step [OF False, of u aeq pc av cb hs de te ic cfg pot]
  show ?thesis
  proof (cases "draw_step av cb hs de ic = Inr None")
    case True
    then have "postflop_decision u aeq pc av cb hs de te ic g cfg pot
                 = weighted_step u aeq pc av cb hs de cfg pot" using p by simp
    then show ?thesis
      using False weighted_step_fold_iff [OF c, of u aeq pc cb hs de cfg pot amt]
        valid_empty_exactly [OF c, of hs de cfg] by auto
  next
    case notnone: False
    have nf: "postflop_decision u aeq pc av cb hs de te ic g cfg pot \<noteq> Inr (FOLD, amt)"
    proof (cases "draw_step av cb hs de ic")
      case (Inl e) then show ?thesis using p by simp
    next
      case (Inr r)
      then obtain act a where r: "r = Some (act, a)" using notnone by (cases r) auto
      from draw_step_actions [of av cb hs de ic act a] Inr r have "act = CALL \<or> act = RAISE" by blast
      then show ?thesis using p Inr r by auto
    qed
    have "''call'' \<in> set av \<or> ''raise'' \<in> set av"
      using notnone draw_step_none_iff [OF k, of av cb hs de] by auto
    then show ?thesis using nf False by auto
  qed
qed

lemma preflop_fold_iff:
  assumes c: "''check'' \<in> set av"
  shows "(preflop_decision av atc hs pos = (FOLD, amt)) =
           (amt = 0 \<and>
            (if hs < preflop_adjusted_threshold TIER3_THRESHOLD pos then 0 < atc
             else if 0.80 \<le> hs then ''raise'' \<notin> set av \<and> ''bet'' \<notin> set av
             else if 0.70 \<le> hs then
               pos \<notin> set [''EP'', ''MP''] \<and> ''raise'' \<notin> set av \<and> ''call'' \<notin> set av
             else 0 < atc \<and>
                  \<not> (pos \<in> set [''CO'', ''BTN'', ''SB''] \<and> atc \<le> 20 \<and>
                     (''raise'' \<in> set av \<or> ''call'' \<in> set av))))"
proof -
  let ?T = "preflop_adjusted_threshold TIER3_THRESHOLD pos"
  note simps = preflop_decision_def Let_def if_True if_False simp_thms prod.inject
    Action.distinct not_less
  consider (low) "hs < ?T"
    | (top) "\<not> hs < ?T" "0.80 \<le> hs"
    | (mid) "\<not> hs < ?T" "\<not> 0.80 \<le> hs" "0.70 \<le> hs"
    | (t4) "\<not> hs < ?T" "\<not> 0.80 \<le> hs" "\<not> 0.70 \<le> hs"
    by blast
  then show ?thesis
  proof cases
    case low
    show ?thesis
      by (cases "atc \<le> 0") (use low c in \<open>auto simp add: preflop_decision_def Let_def\<close>)
  next
    case top
    show ?thesis
      by (cases "''raise'' \<in> set av"; cases "''bet'' \<in> set av")
         (use top in \<open>auto simp add: preflop_decision_def Let_def\<close>)
  next
    case mid
    have res: "preflop_decision av atc hs pos =
      (if pos \<in> set [''EP'', ''MP''] then
              (if 0 < atc \<and> ''call'' \<in> set av then (CALL, 0)
               else if ''check'' \<in> set av then (CHECK, 0)
               else if ''raise'' \<in> set av then (RAISE, 40)
               else (FOLD, 0))
            else
              (if ''raise'' \<in> set av then (RAISE, 40)
               else if ''call'' \<in> set av then (CALL, 0)
               else (FOLD, 0)))"
      using mid by (simp only: preflop_decision_def Let_def if_True if_False)
    have cond: "(if hs < ?T then 0 < atc
             else if 0.80 \<le> hs then ''raise'' \<notin> set av \<and> ''bet'' \<notin> set av
             else if 0.70 \<le> hs then
               pos \<notin> set [''EP'', ''MP''] \<and> ''raise'' \<notin> set av \<and> ''call'' \<notin> set av
             else 0 < atc \<and>
                  \<not> (pos \<in> set [''CO'', ''BTN'', ''SB''] \<and> atc \<le> 20 \<and>
                     (''raise'' \<in> set av \<or> ''call'' \<in> set av)))
        = (pos \<notin> set [''EP'', ''MP''] \<and> ''raise'' \<notin> set av \<and> ''call'' \<notin> set av)"
      using mid by (simp only: if_True if_False)
    show ?thesis unfolding res cond
      by (cases "pos \<in> set [''EP'', ''MP'']"; cases "''raise'' \<in> set av";
          cases "''call'' \<in> set av"; cases "0 < atc")
         (use c in \<open>simp_all only: if_True if_False simp_thms prod.inject Action.distinct\<close>,
          auto)
  next
    case t4
    define late where "late = (pos \<in> set [''CO'', ''BTN'', ''SB''])"
    have res: "preflop_decision av atc hs pos =
           (if late \<and> ''raise'' \<in> set av \<and> atc \<le> 20 then (RAISE, 40)
            else if late \<and> ''call'' \<in> set av \<and> atc \<le> 20 then (CALL, 0)
            else if atc \<le> 0 \<and> ''check'' \<in> set av then (CHECK, 0)
            else (FOLD, 0))"
      using t4 unfolding late_def by (simp only: preflop_decision_def Let_def if_True if_False)
    have cond: "(if hs < ?T then 0 < atc
             else if 0.80 \<le> hs then ''raise'' \<notin> set av \<and> ''bet'' \<notin> set av
             else if 0.70 \<le> hs then
               pos \<notin> set [''EP'', ''MP''] \<and> ''raise'' \<notin> set av \<and> ''call'' \<notin> set av
             else 0 < atc \<and>
                  \<not> (pos \<in> set [''CO'', ''BTN'', ''SB''] \<and> atc \<le> 20 \<and>
                     (''raise'' \<in> set av \<or> ''call'' \<in> set av)))
        = (0 < atc \<and> \<not> (late \<and> atc \<le> 20 \<and> (''raise'' \<in> set av \<or> ''call'' \<in> set av)))"
      using t4 unfolding late_def by (simp only: if_True if_False)
    show ?thesis unfolding res cond using c by auto
  qed
qed

text \<open>
  Claim C3 (amended). Let check be legal. The pre-community decision returns fold (with
  amount 0) exactly in these cases: below the adjusted entry threshold when the call cost is
  positive; at strength 0.80 or more when neither raise nor bet is legal; at strength 0.70 to
  0.80 outside EP and MP when neither raise nor call is legal; and in the tier from the
  adjusted threshold to 0.70 when the call cost is positive and there is no late-position
  (CO, BTN, SB) raise or call at a cost of at most 20. After the flop the weighted-sampling step removes fold from the
  weighted set; the set is empty exactly when the combined equity
  \<open>hand_strength * 0.7 + draw_equity * 0.3\<close> exceeds 0.80 and none of call, bet and raise is
  legal; and the step returns fold exactly when the set is empty. The post-community decision
  returns fold exactly in push-or-fold mode with the equity below the commit threshold, and
  outside that mode when the weighted set is empty.
\<close>

theorem fold_with_check_legal_exactly:
  assumes "''check'' \<in> set av" and "map_of ic ''should_call'' = Some sc"
  shows "(preflop_decision av atc hs pos = (FOLD, amt)) =
           (amt = 0 \<and>
            (if hs < preflop_adjusted_threshold TIER3_THRESHOLD pos then 0 < atc
             else if 0.80 \<le> hs then ''raise'' \<notin> set av \<and> ''bet'' \<notin> set av
             else if 0.70 \<le> hs then
               pos \<notin> set [''EP'', ''MP''] \<and> ''raise'' \<notin> set av \<and> ''call'' \<notin> set av
             else 0 < atc \<and>
                  \<not> (pos \<in> set [''CO'', ''BTN'', ''SB''] \<and> atc \<le> 20 \<and>
                     (''raise'' \<in> set av \<or> ''call'' \<in> set av)))) \<and>
         ''fold'' \<notin> fst ` set (valid_weights av (calculate_postflop_weights hs de cfg)) \<and>
         (valid_weights av (calculate_postflop_weights hs de cfg) = []) =
           (0.80 < hs * 0.7 + de * 0.3 \<and>
            ''call'' \<notin> set av \<and> ''bet'' \<notin> set av \<and> ''raise'' \<notin> set av) \<and>
         (weighted_step u aeq pc av cb hs de cfg pot = Inr (FOLD, amt)) =
           (valid_weights av (calculate_postflop_weights hs de cfg) = [] \<and> amt = 0) \<and>
         (postflop_decision u aeq pc av cb hs de te ic g cfg pot = Inr (FOLD, amt)) =
           (amt = 0 \<and>
            (push_fold g = Some True \<and> te < commit_threshold g \<or>
             push_fold g \<noteq> Some True \<and> 0.80 < hs * 0.7 + de * 0.3 \<and>
             ''call'' \<notin> set av \<and> ''bet'' \<notin> set av \<and> ''raise'' \<notin> set av))"
proof (intro conjI)
  show "(preflop_decision av atc hs pos = (FOLD, amt)) =
           (amt = 0 \<and>
            (if hs < preflop_adjusted_threshold TIER3_THRESHOLD pos then 0 < atc
             else if 0.80 \<le> hs then ''raise'' \<notin> set av \<and> ''bet'' \<notin> set av
             else if 0.70 \<le> hs then
               pos \<notin> set [''EP'', ''MP''] \<and> ''raise'' \<notin> set av \<and> ''call'' \<notin> set av
             else 0 < atc \<and>
                  \<not> (pos \<in> set [''CO'', ''BTN'', ''SB''] \<and> atc \<le> 20 \<and>
                     (''raise'' \<in> set av \<or> ''call'' \<in> set av))))"
    by (rule preflop_fold_iff [OF assms(1)])
  show "''fold'' \<notin> fst ` set (valid_weights av (calculate_postflop_weights hs de cfg))"
    by (rule valid_no_fold [OF assms(1)])
  show "(valid_weights av (calculate_postflop_weights hs de cfg) = []) =
           (0.80 < hs * 0.7 + de * 0.3 \<and>
            ''call'' \<notin> set av \<and> ''bet'' \<notin> set av \<and> ''raise'' \<notin> set av)"
    by (rule valid_empty_exactly [OF assms(1)])
  show "(weighted_step u aeq pc av cb hs de cfg pot = Inr (FOLD, amt)) =
           (valid_weights av (calculate_postflop_weights hs de cfg) = [] \<and> amt = 0)"
    by (rule weighted_step_fold_iff [OF assms(1)])
  show "(postflop_decision u aeq pc av cb hs de te ic g cfg pot = Inr (FOLD, amt)) =
           (amt = 0 \<and>
            (push_fold g = Some True \<and> te < commit_threshold g \<or>
             push_fold g \<noteq> Some True \<and> 0.80 < hs * 0.7 + de * 0.3 \<and>
             ''call'' \<notin> set av \<and> ''bet'' \<notin> set av \<and> ''raise'' \<notin> set av))"
    by (rule postflop_fold_iff [OF assms])
qed

theorem fold_with_check_legal_exactly_witness:
  "''check'' \<in> set [''check'', ''bet''] \<and> ''check'' \<in> set [''fold'', ''check''] \<and>
   map_of ex_free ''should_call'' = Some (PBool True) \<and>
   calculate_implied_odds 0 100 1000 ''flop'' 0.54 = Inr ex_free \<and>
   preflop_decision [''check'', ''bet''] 0 0.2 ''BB'' \<noteq> (FOLD, 0) \<and>
   preflop_decision [''check'', ''bet''] 0 0.85 ''BB'' \<noteq> (FOLD, 0) \<and>
   preflop_decision [''fold'', ''check''] 0 0.85 ''BB'' = (FOLD, 0) \<and>
   valid_weights [''check'', ''bet''] (calculate_postflop_weights 0.95 0.54 initial_base_config)
     \<noteq> [] \<and>
   weighted_step 0 plain_enum 1000 [''check'', ''bet''] 0 0.95 0.54 initial_base_config 100
     \<noteq> Inr (FOLD, 0) \<and>
   postflop_decision 0 plain_enum 1000 [''check'', ''bet''] 0 0.95 0.54 0.9 ex_free ex_deep
       initial_base_config 100 \<noteq> Inr (FOLD, 0) \<and>
   postflop_decision 0 plain_enum 1000 [''fold'', ''check''] 0 0.95 0.54 0.9 ex_free ex_deep
       initial_base_config 100 = Inr (FOLD, 0)"
proof -
  have c1: "''check'' \<in> set [''check'', ''bet'']" and c2: "''check'' \<in> set [''fold'', ''check'']"
    by simp_all
  have m: "map_of ex_free ''should_call'' = Some (PBool True)" by (simp add: ex_free_def)
  have i: "calculate_implied_odds 0 100 1000 ''flop'' 0.54 = Inr ex_free"
    by (simp add: calculate_implied_odds_def ex_free_def)
  have d: "push_fold ex_deep \<noteq> Some True" by (simp add: ex_deep_def get_strategy_by_spr_def)
  have t: "preflop_adjusted_threshold TIER3_THRESHOLD ''BB'' = 0.57"
    by (simp add: preflop_adjusted_threshold_def TIER3_THRESHOLD_def position_multipliers_def
        dict_get_def)
  note a = fold_with_check_legal_exactly [OF c1 m, where pos = "''BB''" and atc = 0 and amt = 0
      and de = "0.54" and cfg = initial_base_config and u = 0 and aeq = plain_enum and pc = 1000
      and cb = 0 and pot = 100 and te = "0.9" and g = ex_deep]
  note b = fold_with_check_legal_exactly [OF c2 m, where pos = "''BB''" and atc = 0 and amt = 0
      and de = "0.54" and cfg = initial_base_config and u = 0 and aeq = plain_enum and pc = 1000
      and cb = 0 and pot = 100 and te = "0.9" and g = ex_deep]
  have 1: "preflop_decision [''check'', ''bet''] 0 0.2 ''BB'' \<noteq> (FOLD, 0)"
    using a [where hs = "0.2"] t by simp
  have 2: "preflop_decision [''check'', ''bet''] 0 0.85 ''BB'' \<noteq> (FOLD, 0)"
    using a [where hs = "0.85"] t by simp
  have 3: "preflop_decision [''fold'', ''check''] 0 0.85 ''BB'' = (FOLD, 0)"
    using b [where hs = "0.85"] t by simp
  have 4: "valid_weights [''check'', ''bet''] (calculate_postflop_weights 0.95 0.54 initial_base_config)
     \<noteq> []"
    using a [where hs = "0.95"] by simp
  have 5: "weighted_step 0 plain_enum 1000 [''check'', ''bet''] 0 0.95 0.54 initial_base_config 100
     \<noteq> Inr (FOLD, 0)"
    using a [where hs = "0.95"] by simp
  have 6: "postflop_decision 0 plain_enum 1000 [''check'', ''bet''] 0 0.95 0.54 0.9 ex_free ex_deep
       initial_base_config 100 \<noteq> Inr (FOLD, 0)"
    using a [where hs = "0.95"] d by simp
  have 7: "postflop_decision 0 plain_enum 1000 [''fold'', ''check''] 0 0.95 0.54 0.9 ex_free ex_deep
       initial_base_config 100 = Inr (FOLD, 0)"
    using b [where hs = "0.95"] d by simp
  show ?thesis using c1 c2 m i 1 2 3 4 5 6 7 by blast
qed

text \<open>
  As stated, for every request with check legal, the claim fails: in push-or-fold mode a weak
  hand is folded although check is legal; with only fold and check legal and a combined
  equity above 0.80 the weighted set is empty and the engine folds; and before the flop a
  hand of strength 0.85 is folded in the big blind when neither raise nor bet is legal.
\<close>

theorem fold_with_check_legal_counterexample:
  "''check'' \<in> set ex_legal \<and>
   get_action initial_base_config 0 plain_enum ex_shark ex_legal 0 ex_flop 0.2 0.2 = Inr (FOLD, 0) \<and>
   ''check'' \<in> set [''fold'', ''check''] \<and> push_fold ex_deep \<noteq> Some True \<and>
   postflop_decision 0 plain_enum 1000 [''fold'', ''check''] 0 0.95 0.54 0.9
       [(''total_equity'', PFloat 0), (''should_call'', PBool True)] ex_deep
       initial_base_config 100 = Inr (FOLD, 0) \<and>
   ''check'' \<in> set [''check'', ''all_in''] \<and>
   preflop_decision [''check'', ''all_in''] 0 0.85 ''BB'' = (FOLD, 0)"
proof -
  have 1: "postflop_decision 0 plain_enum 1000 [''fold'', ''check''] 0 0.95 0.54 0.9
       [(''total_equity'', PFloat 0), (''should_call'', PBool True)] ex_deep
       initial_base_config 100 = Inr (FOLD, 0)"
    using weighted_step_empty [OF ex_valid_empty, of 0 plain_enum 1000 0 100]
    by (simp add: postflop_decision_def draw_step_def ex_deep_def get_strategy_by_spr_def)
  have 2: "preflop_decision [''check'', ''all_in''] 0 0.85 ''BB'' = (FOLD, 0)"
    by (simp add: preflop_decision_def preflop_adjusted_threshold_def TIER3_THRESHOLD_def
        position_multipliers_def dict_get_def)
  have 3: "push_fold ex_deep \<noteq> Some True" by (simp add: ex_deep_def get_strategy_by_spr_def)
  show ?thesis using 1 2 3 ex_push_fold_fold by (simp add: ex_legal_def)
qed

section \<open>SharkAI: where all-in comes from\<close>

lemma postflop_all_in:
  assumes "postflop_decision u aeq pc av cb hs de te ic g cfg pot = Inr (ALL_IN, amt)"
  shows "push_fold g = Some True \<and> commit_threshold g \<le> te \<and> amt = pc"
proof (cases "push_fold g = Some True")
  case True
  with assms show ?thesis by (simp add: postflop_decision_def split: if_splits)
next
  case False
  then have pf: "(case push_fold g of Some b \<Rightarrow> b | None \<Rightarrow> False) = False"
    by (cases "push_fold g") auto
  show ?thesis
  proof (cases "draw_step av cb hs de ic")
    case (Inl e)
    with assms pf show ?thesis by (simp add: postflop_decision_def)
  next
    case (Inr r)
    show ?thesis
    proof (cases r)
      case None
      with Inr assms pf
      have "weighted_step u aeq pc av cb hs de cfg pot = Inr (ALL_IN, amt)"
        by (simp add: postflop_decision_def)
      from weighted_step_not_all_in [OF this] show ?thesis by simp
    next
      case (Some p)
      obtain act a where p: "p = (act, a)" by (cases p)
      from draw_step_actions [of av cb hs de ic act a] Inr Some p
      have "act = CALL \<or> act = RAISE" by auto
      moreover from Inr Some p assms pf have "act = ALL_IN"
        by (simp add: postflop_decision_def)
      ultimately show ?thesis by simp
    qed
  qed
qed

lemma push_fold_regime:
  "push_fold (get_strategy_by_spr spr hs de) = Some True \<Longrightarrow>
     \<not> gt spr 3 \<and> commit_threshold (get_strategy_by_spr spr hs de) = 0.45"
  by (simp add: get_strategy_by_spr_def split: if_splits)

lemma get_action_all_in:
  assumes "get_action cfg u aeq player av atc gs hs wp = Inr (ALL_IN, amt)"
  shows "gs_state gs \<noteq> PRE_FLOP \<and>
         \<not> gt (calculate_spr (effective_stack_of player (active_players_of gs)) (pot_of gs)) 3 \<and>
         amt = chips player \<and>
         (\<exists>draws. identify_draws (hole_cards_of player) (community_cards_of gs) = Inr draws \<and>
                   0.45 \<le> wp + calculate_total_equity draws * 0.5)"
proof -
  obtain draws where d: "identify_draws (hole_cards_of player) (community_cards_of gs) = Inr draws"
    using assms by (cases "identify_draws (hole_cards_of player) (community_cards_of gs)")
      (simp_all add: get_action_def Let_def)
  let ?es = "effective_stack_of player (active_players_of gs)"
  let ?de = "calculate_total_equity draws"
  let ?street = "dict_get street_map (gs_state gs) ''preflop''"
  obtain dod where dod: "calculate_direct_odds atc (pot_of gs) = Inr dod"
    using assms d by (cases "calculate_direct_odds atc (pot_of gs)")
      (simp_all add: get_action_def Let_def)
  obtain ic where ic: "calculate_implied_odds atc (pot_of gs) ?es ?street ?de = Inr ic"
    using assms d dod by (cases "calculate_implied_odds atc (pot_of gs) ?es ?street ?de")
      (simp_all add: get_action_def Let_def)
  let ?g = "get_strategy_by_spr (calculate_spr ?es (pot_of gs)) hs ?de"
  have pre: "gs_state gs \<noteq> PRE_FLOP"
  proof
    assume p: "gs_state gs = PRE_FLOP"
    with assms d dod ic have "preflop_decision av atc hs (get_position player) = (ALL_IN, amt)"
      by (simp add: get_action_def Let_def)
    then have "fst (preflop_decision av atc hs (get_position player)) = ALL_IN" by simp
    with preflop_actions [of av atc hs "get_position player"] show False by simp
  qed
  with assms d dod ic
  have "postflop_decision u aeq (chips player) av
          (case gs_current_bet gs of Some b \<Rightarrow> b | None \<Rightarrow> 0) hs ?de (wp + ?de * 0.5) ic ?g cfg
          (pot_of gs) = Inr (ALL_IN, amt)"
    by (simp add: get_action_def Let_def)
  from postflop_all_in [OF this]
  have pf: "push_fold ?g = Some True" and ct: "commit_threshold ?g \<le> wp + ?de * 0.5"
    and am: "amt = chips player" by simp_all
  from push_fold_regime [OF pf] ct
  have "\<not> gt (calculate_spr ?es (pot_of gs)) 3" "0.45 \<le> wp + ?de * 0.5" by simp_all
  with pre am d show ?thesis by blast
qed

lemma postflop_all_in_iff:
  "(postflop_decision u aeq pc av cb hs de te ic g cfg pot = Inr (ALL_IN, amt)) =
     (push_fold g = Some True \<and> commit_threshold g \<le> te \<and> amt = pc)"
proof
  assume "postflop_decision u aeq pc av cb hs de te ic g cfg pot = Inr (ALL_IN, amt)"
  then show "push_fold g = Some True \<and> commit_threshold g \<le> te \<and> amt = pc"
    by (rule postflop_all_in)
next
  assume "push_fold g = Some True \<and> commit_threshold g \<le> te \<and> amt = pc"
  then show "postflop_decision u aeq pc av cb hs de te ic g cfg pot = Inr (ALL_IN, amt)"
    by (simp add: postflop_decision_def)
qed

lemma direct_odds_ok:
  "(\<exists>d. calculate_direct_odds atc pot = Inr d) = (\<not> (0 < atc \<and> pot + atc = 0))"
  by (auto simp: calculate_direct_odds_def)

lemma implied_odds_ok:
  "(\<exists>d. calculate_implied_odds atc pot es street de = Inr d) = (\<not> (0 < atc \<and> pot + atc = 0))"
  by (auto simp: calculate_implied_odds_def Let_def)

lemma push_fold_regime_iff:
  "(push_fold (get_strategy_by_spr spr hs de) = Some True) = (\<not> gt spr 3)"
proof -
  have g: "gt spr 7 \<Longrightarrow> gt spr 3" "gt spr 15 \<Longrightarrow> gt spr 7" by (cases spr; simp)+
  then show ?thesis by (auto simp add: get_strategy_by_spr_def)
qed

lemma get_action_all_in_iff:
  "(get_action cfg u aeq player av atc gs hs wp = Inr (ALL_IN, amt)) =
     (gs_state gs \<noteq> PRE_FLOP \<and>
      \<not> gt (calculate_spr (effective_stack_of player (active_players_of gs)) (pot_of gs)) 3 \<and>
      amt = chips player \<and>
      \<not> (0 < atc \<and> pot_of gs + atc = 0) \<and>
      (\<exists>draws. identify_draws (hole_cards_of player) (community_cards_of gs) = Inr draws \<and>
                0.45 \<le> wp + calculate_total_equity draws * 0.5))"
proof
  assume a: "get_action cfg u aeq player av atc gs hs wp = Inr (ALL_IN, amt)"
  note r = get_action_all_in [OF a]
  have "\<exists>d. calculate_direct_odds atc (pot_of gs) = Inr d"
  proof (rule ccontr)
    assume "\<not> (\<exists>d. calculate_direct_odds atc (pot_of gs) = Inr d)"
    then obtain e where "calculate_direct_odds atc (pot_of gs) = Inl e"
      by (cases "calculate_direct_odds atc (pot_of gs)") auto
    with a r show False by (auto simp: get_action_def Let_def)
  qed
  then have "\<not> (0 < atc \<and> pot_of gs + atc = 0)"
    using direct_odds_ok [of atc "pot_of gs"] by blast
  with r show "gs_state gs \<noteq> PRE_FLOP \<and>
      \<not> gt (calculate_spr (effective_stack_of player (active_players_of gs)) (pot_of gs)) 3 \<and>
      amt = chips player \<and>
      \<not> (0 < atc \<and> pot_of gs + atc = 0) \<and>
      (\<exists>draws. identify_draws (hole_cards_of player) (community_cards_of gs) = Inr draws \<and>
                0.45 \<le> wp + calculate_total_equity draws * 0.5)" by blast
next
  let ?es = "effective_stack_of player (active_players_of gs)"
  assume b: "gs_state gs \<noteq> PRE_FLOP \<and>
      \<not> gt (calculate_spr ?es (pot_of gs)) 3 \<and>
      amt = chips player \<and>
      \<not> (0 < atc \<and> pot_of gs + atc = 0) \<and>
      (\<exists>draws. identify_draws (hole_cards_of player) (community_cards_of gs) = Inr draws \<and>
                0.45 \<le> wp + calculate_total_equity draws * 0.5)"
  then obtain draws where d: "identify_draws (hole_cards_of player) (community_cards_of gs) = Inr draws"
    and e: "0.45 \<le> wp + calculate_total_equity draws * 0.5" by blast
  let ?de = "calculate_total_equity draws"
  let ?street = "dict_get street_map (gs_state gs) ''preflop''"
  from b obtain dod where dod: "calculate_direct_odds atc (pot_of gs) = Inr dod"
    using direct_odds_ok [of atc "pot_of gs"] by blast
  from b obtain ic where ic: "calculate_implied_odds atc (pot_of gs) ?es ?street ?de = Inr ic"
    using implied_odds_ok [of atc "pot_of gs" ?es ?street ?de] by blast
  let ?g = "get_strategy_by_spr (calculate_spr ?es (pot_of gs)) hs ?de"
  have pf: "push_fold ?g = Some True" using b by (simp add: push_fold_regime_iff)
  from push_fold_regime [OF pf] have ct: "commit_threshold ?g = 0.45" by simp
  have "postflop_decision u aeq (chips player) av
          (case gs_current_bet gs of Some b \<Rightarrow> b | None \<Rightarrow> 0) hs ?de (wp + ?de * 0.5) ic ?g cfg
          (pot_of gs) = Inr (ALL_IN, amt)"
    using pf ct e b by (simp only: postflop_all_in_iff)
  then show "get_action cfg u aeq player av atc gs hs wp = Inr (ALL_IN, amt)"
    using d dod ic b by (simp add: get_action_def Let_def)
qed

text \<open>
  Claim C10 (amended). \<^verbatim>\<open>get_action\<close> returns all-in exactly when the phase is not
  pre-flop, the stack-to-pot ratio is at most 3 (the push-or-fold regime), the equity
  \<open>win_probability + draw_equity * 0.5\<close> that it passes to the post-community decision is at
  least the commit threshold 0.45 of that regime, and no exception is raised on the way; the
  amount is the player's stack. The pre-community decision never returns all-in; the weight
  of all-in is 0 in every band, so the weighted-sampling step never returns it; and the
  post-community decision returns it exactly from its push-or-fold branch.
\<close>

theorem all_in_exactly_by_push_or_fold:
  "(get_action cfg u aeq player av atc gs hs wp = Inr (ALL_IN, amt)) =
     (gs_state gs \<noteq> PRE_FLOP \<and>
      \<not> gt (calculate_spr (effective_stack_of player (active_players_of gs)) (pot_of gs)) 3 \<and>
      amt = chips player \<and>
      \<not> (0 < atc \<and> pot_of gs + atc = 0) \<and>
      (\<exists>draws. identify_draws (hole_cards_of player) (community_cards_of gs) = Inr draws \<and>
                0.45 \<le> wp + calculate_total_equity draws * 0.5)) \<and>
   fst (preflop_decision av atc hs pos) \<noteq> ALL_IN \<and>
   map_of (calculate_postflop_weights hs de cfg) ''all_in'' = Some 0 \<and>
   (weighted_step u aeq pc av cb hs de cfg pot = Inr (act, amt') \<longrightarrow> act \<noteq> ALL_IN) \<and>
   (postflop_decision u aeq pc av cb hs de te ic g cfg pot = Inr (ALL_IN, amt')) =
     (push_fold g = Some True \<and> commit_threshold g \<le> te \<and> amt' = pc)"
proof (intro conjI impI)
  show "(get_action cfg u aeq player av atc gs hs wp = Inr (ALL_IN, amt)) =
     (gs_state gs \<noteq> PRE_FLOP \<and>
      \<not> gt (calculate_spr (effective_stack_of player (active_players_of gs)) (pot_of gs)) 3 \<and>
      amt = chips player \<and>
      \<not> (0 < atc \<and> pot_of gs + atc = 0) \<and>
      (\<exists>draws. identify_draws (hole_cards_of player) (community_cards_of gs) = Inr draws \<and>
                0.45 \<le> wp + calculate_total_equity draws * 0.5))"
    by (rule get_action_all_in_iff)
  show "fst (preflop_decision av atc hs pos) \<noteq> ALL_IN"
    using preflop_actions [of av atc hs pos] by auto
  show "map_of (calculate_postflop_weights hs de cfg) ''all_in'' = Some 0"
    by (rule weights_all_in)
  show "(postflop_decision u aeq pc av cb hs de te ic g cfg pot = Inr (ALL_IN, amt')) =
     (push_fold g = Some True \<and> commit_threshold g \<le> te \<and> amt' = pc)"
    by (rule postflop_all_in_iff)
next
  assume "weighted_step u aeq pc av cb hs de cfg pot = Inr (act, amt')"
  then show "act \<noteq> ALL_IN" by (rule weighted_step_not_all_in)
qed

theorem all_in_exactly_by_push_or_fold_witness:
  "get_action initial_base_config 0 plain_enum ex_shark ex_legal 0 ex_flop 0.9 0.9
     = Inr (ALL_IN, 100) \<and>
   get_action initial_base_config 0 plain_enum ex_shark ex_legal 0 ex_flop 0.2 0.2
     \<noteq> Inr (ALL_IN, 100) \<and>
   gs_state ex_flop \<noteq> PRE_FLOP \<and>
   calculate_spr (effective_stack_of ex_shark (active_players_of ex_flop)) (pot_of ex_flop)
     = Finite 1 \<and>
   identify_draws (hole_cards_of ex_shark) (community_cards_of ex_flop) = Inr [] \<and>
   chips ex_shark = 100 \<and>
   weighted_step 0 plain_enum 1000 [''check'', ''bet''] 0 0.95 0.54 initial_base_config 100
     \<noteq> Inr (ALL_IN, 1000)"
proof -
  note t = all_in_exactly_by_push_or_fold [where cfg = initial_base_config and u = 0
      and aeq = plain_enum and player = ex_shark and av = ex_legal and atc = 0 and gs = ex_flop
      and amt = 100]
  have st: "gs_state ex_flop \<noteq> PRE_FLOP" by (simp add: ex_flop_def)
  have ch: "chips ex_shark = 100" by (simp add: ex_shark_def)
  have 1: "get_action initial_base_config 0 plain_enum ex_shark ex_legal 0 ex_flop 0.9 0.9
     = Inr (ALL_IN, 100)"
    using t [where hs = "0.9" and wp = "0.9"] st ch ex_spr ex_draws_flop
    by (simp add: calculate_total_equity_def)
  have 2: "get_action initial_base_config 0 plain_enum ex_shark ex_legal 0 ex_flop 0.2 0.2
     \<noteq> Inr (ALL_IN, 100)"
    using t [where hs = "0.2" and wp = "0.2"] st ch ex_spr ex_draws_flop
    by (simp add: calculate_total_equity_def)
  have 3: "weighted_step 0 plain_enum 1000 [''check'', ''bet''] 0 0.95 0.54 initial_base_config 100
     \<noteq> Inr (ALL_IN, 1000)"
    using all_in_exactly_by_push_or_fold [where u = 0 and aeq = plain_enum and pc = 1000
        and av = "[''check'', ''bet'']" and cb = 0 and hs = "0.95" and de = "0.54"
        and cfg = initial_base_config and pot = 100 and act = ALL_IN and amt' = 1000]
    by blast
  show ?thesis using 1 2 3 st ch ex_spr ex_draws_flop by blast
qed

text \<open>
  As stated, with the combined equity \<open>hand_strength * 0.7 + draw_equity * 0.3\<close>, the claim
  fails: the equity compared with the commit threshold is the one \<^verbatim>\<open>get_action\<close> passes,
  \<open>win_probability + draw_equity * 0.5\<close>. With both inputs at 0.5 and no draw the engine goes
  all-in although the combined equity is 0.35, below the threshold 0.45.
\<close>

theorem all_in_below_combined_equity_counterexample:
  "get_action initial_base_config 0 plain_enum ex_shark ex_legal 0 ex_flop 0.5 0.5
     = Inr (ALL_IN, 100) \<and>
   identify_draws (hole_cards_of ex_shark) (community_cards_of ex_flop) = Inr [] \<and>
   commit_threshold
     (get_strategy_by_spr
        (calculate_spr (effective_stack_of ex_shark (active_players_of ex_flop)) (pot_of ex_flop))
        0.5 (calculate_total_equity [])) = 0.45 \<and>
   0.5 * 0.7 + calculate_total_equity [] * 0.3 < (0.45 :: rat)"
proof -
  have "get_action initial_base_config 0 plain_enum ex_shark ex_legal 0 ex_flop 0.5 0.5
     = Inr (ALL_IN, 100)"
    unfolding get_action_def Let_def ex_draws_flop ex_spr
    by (simp add: calculate_total_equity_def calculate_direct_odds_def calculate_implied_odds_def
      get_strategy_by_spr_def postflop_decision_def ex_flop_def ex_shark_def)
  then show ?thesis
    using ex_draws_flop ex_spr
    by (simp add: calculate_total_equity_def get_strategy_by_spr_def)
qed

section \<open>SharkAI: activation of the adaptation\<close>

lemma update_strategy_keeps:
  "adaptation_active (update_strategy s) = adaptation_active s"
  "opponent_data (update_strategy s) = opponent_data s"
  "base_config (update_strategy s) = base_config s"
  "hands_seen (update_strategy s) = hands_seen s"
  by (simp_all add: update_strategy_def Let_def)

lemma total_hands_update_strategy: "total_hands (update_strategy s) = total_hands s"
  by (simp add: total_hands_def update_strategy_keeps)

lemma hands_calculate_tendencies:
  "hands_observed (calculate_tendencies d) = hands_observed d"
  by (simp add: calculate_tendencies_def Let_def)

lemma sum_hands_map_entry:
  assumes "\<And>d. hands_observed (f d) = hands_observed d"
  shows "sum_list (map (\<lambda>kd. hands_observed (snd kd)) (AList.map_entry k f xs))
         = sum_list (map (\<lambda>kd. hands_observed (snd kd)) xs)"
  by (induction xs) (auto simp: assms)

lemma update_after_action_untracked:
  "map_of (opponent_data s) n = None \<Longrightarrow> update_after_action s n a st b f = s"
  by (simp add: update_after_action_def)

lemma update_after_action_active:
  "adaptation_active s \<Longrightarrow> adaptation_active (update_after_action s n a st b f)"
  by (cases "map_of (opponent_data s) n")
     (simp_all add: update_after_action_def Let_def update_strategy_keeps)

lemma update_after_action_base:
  "base_config (update_after_action s n a st b f) = base_config s"
  by (cases "map_of (opponent_data s) n")
     (simp_all add: update_after_action_def Let_def update_strategy_keeps)

lemma update_after_action_threshold:
  assumes "adaptation_start (base_config s) \<le> total_hands s \<longrightarrow> adaptation_active s"
  shows "adaptation_start (base_config (update_after_action s n a st b f))
           \<le> total_hands (update_after_action s n a st b f)
         \<longrightarrow> adaptation_active (update_after_action s n a st b f)"
proof (cases "map_of (opponent_data s) n")
  case None
  then show ?thesis using assms by (simp add: update_after_action_untracked)
next
  case (Some d0)
  show ?thesis
    using Some
    by (simp add: update_after_action_def Let_def update_strategy_keeps
        total_hands_update_strategy total_hands_def sum_hands_map_entry
        hands_calculate_tendencies)
qed

lemma observe_active: "adaptation_active s \<Longrightarrow> adaptation_active (observe s ob)"
  by (cases ob) (simp add: observe_def update_after_action_active)

lemma observe_base: "base_config (observe s ob) = base_config s"
  by (cases ob) (simp add: observe_def update_after_action_base)

lemma observe_threshold:
  "adaptation_start (base_config s) \<le> total_hands s \<longrightarrow> adaptation_active s \<Longrightarrow>
   adaptation_start (base_config (observe s ob)) \<le> total_hands (observe s ob)
     \<longrightarrow> adaptation_active (observe s ob)"
  by (cases ob) (simp add: observe_def update_after_action_threshold)

lemma observe_all_active:
  "adaptation_active s \<Longrightarrow> adaptation_active (observe_all s obs)"
  unfolding observe_all_def by (induction obs arbitrary: s) (simp_all add: observe_active)

lemma observe_all_base: "base_config (observe_all s obs) = base_config s"
  unfolding observe_all_def by (induction obs arbitrary: s) (simp_all add: observe_base)

lemma observe_all_threshold:
  "adaptation_start (base_config s) \<le> total_hands s \<longrightarrow> adaptation_active s \<Longrightarrow>
   adaptation_start (base_config (observe_all s obs)) \<le> total_hands (observe_all s obs)
     \<longrightarrow> adaptation_active (observe_all s obs)"
  unfolding observe_all_def
proof (induction obs arbitrary: s)
  case Nil then show ?case by simp
next
  case (Cons ob obs)
  from Cons.IH [OF observe_threshold [OF Cons.prems]] show ?case by simp
qed

lemma observe_all_append: "observe_all s (obs @ later) = observe_all (observe_all s obs) later"
  by (simp add: observe_all_def)

lemma initialize_opponents_fields:
  "base_config (initialize_opponents s players) = base_config s"
  "adaptation_active (initialize_opponents s players) = False"
  "current_config (initialize_opponents s players) = base_config s"
  by (simp_all add: initialize_opponents_def)

lemma foldl_fresh_hands:
  fixes d :: "(string \<times> opp) list"
  assumes "\<forall>kd\<in>set d. hands_observed (snd kd) = 0"
  shows "\<forall>kd\<in>set (foldl (\<lambda>d p. if c p then AList.update (nm p) fresh_opp d else d) d ps).
           hands_observed (snd kd) = 0"
  using assms
proof (induction ps arbitrary: d)
  case Nil then show ?case by simp
next
  case (Cons p ps)
  have "\<forall>kd\<in>set (AList.update (nm p) fresh_opp d). hands_observed (snd kd) = 0"
    using Cons.prems by (induction d) (auto simp: fresh_opp_def)
  with Cons.prems have "\<forall>kd\<in>set (if c p then AList.update (nm p) fresh_opp d else d).
      hands_observed (snd kd) = 0" by simp
  from Cons.IH [OF this] show ?case by simp
qed

lemma total_hands_initialize: "total_hands (initialize_opponents s players) = 0"
proof -
  have od: "opponent_data (initialize_opponents s players) =
      foldl (\<lambda>d p. if \<not> is_ai p \<or> (case ai_style p of Some st \<Rightarrow> st | None \<Rightarrow> ''LAG'') \<noteq> ''SHARK''
                        then AList.update (name p) fresh_opp d else d) [] players"
    by (simp add: initialize_opponents_def)
  have "\<forall>kd\<in>set (opponent_data (initialize_opponents s players)).
      hands_observed (snd kd) = 0"
    unfolding od by (rule foldl_fresh_hands) simp
  moreover have "(\<forall>kd\<in>set xs. hands_observed (snd kd) = 0) \<Longrightarrow>
      sum_list (map (\<lambda>kd. hands_observed (snd kd)) xs) = 0" for xs :: "(string \<times> opp) list"
    by (induction xs) simp_all
  ultimately show ?thesis unfolding total_hands_def by blast
qed

lemma summary_observing_iff:
  "(get_opponent_summary s = msg_observing) = (\<not> adaptation_active s)"
  by (simp add: get_opponent_summary_def Let_def msg_observing_def msg_analysis_def
      msg_learning_def)

text \<open>Five sessions with the one tracked opponent, evaluated.\<close>

lemma run_quiet:
  "adaptation_active (observe_all registered (replicate 20 ob_raise)) \<and>
   aggregate (observe_all registered (replicate 20 ob_raise)) = (0, 0, 0) \<and>
   current_config (observe_all registered (replicate 20 ob_raise)) = initial_base_config"
  by code_simp

lemma run_folds_20:
  "adaptation_active (observe_all registered (replicate 20 ob_fold)) \<and>
   total_hands (observe_all registered (replicate 20 ob_fold)) = 20 \<and>
   aggregate (observe_all registered (replicate 20 ob_fold)) = (1, 0.5, 0.5) \<and>
   bluff_freq (current_config (observe_all registered (replicate 20 ob_fold))) = 0.3 \<and>
   vpip_range (current_config (observe_all registered (replicate 20 ob_fold))) = (15, 20)"
  by code_simp

lemma run_folds_19:
  "\<not> adaptation_active (observe_all registered (replicate 19 ob_fold)) \<and>
   aggregate (observe_all registered (replicate 19 ob_fold)) = (1, 0.5, 0.5) \<and>
   current_config (observe_all registered (replicate 19 ob_fold)) = initial_base_config \<and>
   get_opponent_summary (observe_all registered (replicate 19 ob_fold)) = msg_observing"
  by code_simp

lemma run_folds_then_raise:
  "adaptation_active (observe_all registered (replicate 20 ob_fold @ [ob_raise])) \<and>
   aggregate (observe_all registered (replicate 20 ob_fold @ [ob_raise])) = (1, 0, 0) \<and>
   vpip_range (current_config (observe_all registered (replicate 20 ob_fold @ [ob_raise])))
     = (15, 20)"
  by code_simp

lemma run_raise_then_folds:
  "adaptation_active (observe_all registered (ob_raise # replicate 19 ob_fold)) \<and>
   aggregate (observe_all registered (ob_raise # replicate 19 ob_fold)) = (1, 0, 0) \<and>
   vpip_range (current_config (observe_all registered (ob_raise # replicate 19 ob_fold)))
     = (12, 18)"
  by code_simp

lemma registered_base:
  "base_config (observe_all registered obs) = initial_base_config"
  by (simp add: observe_all_base registered_def initialize_opponents_fields shark_init_def)

text \<open>
  Claim C6. After \<^verbatim>\<open>initialize_opponents\<close> (with the activation threshold 20 of the base
  configuration) and any sequence of \<^verbatim>\<open>update_after_action\<close> calls: when the hands observed
  over all tracked opponents total at least 20 the activation flag is set; once it is set it
  stays set after any further calls, and \<^verbatim>\<open>get_opponent_summary\<close> does not return the
  ``observing'' message any more. The flag also survives a call from any state whatsoever,
  whatever its counters are.
\<close>

theorem activation_is_sticky:
  assumes "adaptation_start (base_config s) = 20"
  shows "(20 \<le> total_hands (observe_all (initialize_opponents s players) obs) \<longrightarrow>
            adaptation_active (observe_all (initialize_opponents s players) obs)) \<and>
         (adaptation_active (observe_all (initialize_opponents s players) obs) \<longrightarrow>
            adaptation_active (observe_all (initialize_opponents s players) (obs @ later)) \<and>
            get_opponent_summary (observe_all (initialize_opponents s players) (obs @ later))
              \<noteq> msg_observing) \<and>
         (adaptation_active t \<longrightarrow>
            adaptation_active (observe t ob) \<and> get_opponent_summary (observe t ob) \<noteq> msg_observing)"
proof (intro conjI impI)
  let ?s0 = "initialize_opponents s players"
  have "adaptation_start (base_config ?s0) \<le> total_hands ?s0 \<longrightarrow> adaptation_active ?s0"
    using assms by (simp add: initialize_opponents_fields total_hands_initialize)
  from observe_all_threshold [OF this, of obs]
  have th: "20 \<le> total_hands (observe_all ?s0 obs) \<longrightarrow> adaptation_active (observe_all ?s0 obs)"
    using assms by (simp add: observe_all_base initialize_opponents_fields)
  {
    assume "20 \<le> total_hands (observe_all ?s0 obs)"
    with th show "adaptation_active (observe_all ?s0 obs)" by simp
  }
  {
    assume a: "adaptation_active (observe_all ?s0 obs)"
    then show m: "adaptation_active (observe_all ?s0 (obs @ later))"
      by (simp add: observe_all_append observe_all_active)
    then show "get_opponent_summary (observe_all ?s0 (obs @ later)) \<noteq> msg_observing"
      by (simp add: summary_observing_iff)
  }
  {
    assume "adaptation_active t"
    then show o: "adaptation_active (observe t ob)" by (rule observe_active)
    then show "get_opponent_summary (observe t ob) \<noteq> msg_observing"
      by (simp add: summary_observing_iff)
  }
qed

theorem activation_is_sticky_witness:
  "adaptation_start (base_config shark_init) = 20 \<and>
   total_hands (observe_all (initialize_opponents shark_init [ex_villain])
                  (replicate 20 ob_fold)) = 20 \<and>
   adaptation_active (observe_all (initialize_opponents shark_init [ex_villain])
                        (replicate 20 ob_fold)) \<and>
   adaptation_active (observe_all (initialize_opponents shark_init [ex_villain])
                        (replicate 20 ob_fold @ [ob_raise])) \<and>
   get_opponent_summary (observe_all (initialize_opponents shark_init [ex_villain])
                          (replicate 20 ob_fold @ [ob_raise])) \<noteq> msg_observing \<and>
   get_opponent_summary (observe_all (initialize_opponents shark_init [ex_villain])
                          (replicate 19 ob_fold)) = msg_observing"
proof -
  have st: "adaptation_start (base_config shark_init) = 20"
    by (simp add: shark_init_def initial_base_config_def)
  note t = activation_is_sticky [OF st, of "[ex_villain]" "replicate 20 ob_fold" "[ob_raise]"]
  have tot: "total_hands (observe_all (initialize_opponents shark_init [ex_villain])
                  (replicate 20 ob_fold)) = 20"
    using run_folds_20 by (simp add: registered_def)
  with t have act: "adaptation_active (observe_all (initialize_opponents shark_init [ex_villain])
                        (replicate 20 ob_fold))" by simp
  with t have later:
    "adaptation_active (observe_all (initialize_opponents shark_init [ex_villain])
                        (replicate 20 ob_fold @ [ob_raise])) \<and>
     get_opponent_summary (observe_all (initialize_opponents shark_init [ex_villain])
                          (replicate 20 ob_fold @ [ob_raise])) \<noteq> msg_observing" by blast
  show ?thesis using st tot act later run_folds_19 by (simp add: registered_def)
qed

section \<open>SharkAI: the current configuration\<close>

lemma aggregate_update_strategy: "aggregate (update_strategy s) = aggregate s"
  by (simp add: aggregate_def update_strategy_keeps)

lemma update_strategy_invariant:
  assumes "opponent_data s \<noteq> []" "adaptation_active s"
    and "pfr_range (current_config s) = pfr_range (base_config s)"
        "raise_preflop (current_config s) = raise_preflop (base_config s)"
        "adaptation_start (current_config s) = adaptation_start (base_config s)"
        "learning_rate (current_config s) = learning_rate (base_config s)"
  shows "config_invariant (update_strategy s)"
  unfolding config_invariant_def Let_def aggregate_update_strategy update_strategy_keeps
  using assms
  by (simp add: update_strategy_def Let_def aggregate_def)

lemma invariant_unwritten:
  "config_invariant s \<Longrightarrow>
     pfr_range (current_config s) = pfr_range (base_config s) \<and>
     raise_preflop (current_config s) = raise_preflop (base_config s) \<and>
     adaptation_start (current_config s) = adaptation_start (base_config s) \<and>
     learning_rate (current_config s) = learning_rate (base_config s)"
  by (simp add: config_invariant_def Let_def)

lemma invariant_inactive:
  "\<not> adaptation_active s \<Longrightarrow> config_invariant s = (current_config s = base_config s)"
  by (auto simp add: config_invariant_def Let_def)

lemma map_entry_nonempty: "xs \<noteq> [] \<Longrightarrow> AList.map_entry k f xs \<noteq> []"
  by (cases xs) auto

lemma update_after_action_invariant:
  assumes inv: "config_invariant s"
  shows "config_invariant (update_after_action s n a st b f)"
proof (cases "map_of (opponent_data s) n")
  case None
  then show ?thesis using inv by (simp add: update_after_action_untracked)
next
  case (Some d0)
  then have ne: "opponent_data s \<noteq> []" by auto
  define data where "data = count_action a b f d0"
  define s1 where "s1 = s\<lparr>opponent_data := AList.map_entry n (\<lambda>_. data) (opponent_data s),
                            hands_seen := hands_seen s + 1\<rparr>"
  define s2 where "s2 = (if \<not> adaptation_active s1
                            \<and> adaptation_start (base_config s1) \<le> total_hands s1
                         then s1\<lparr>adaptation_active := True\<rparr> else s1)"
  define s3 where "s3 = s2\<lparr>opponent_data :=
                              AList.map_entry n calculate_tendencies (opponent_data s2)\<rparr>"
  have res: "update_after_action s n a st b f =
     (if hands_observed data mod 5 = 0 \<or> adaptation_active s2
      then (if adaptation_active s3 then update_strategy s3 else s3) else s2)"
    using Some by (simp add: update_after_action_def Let_def data_def s1_def s2_def s3_def)
  have cfg: "current_config s3 = current_config s" "base_config s3 = base_config s"
       "current_config s2 = current_config s" "base_config s2 = base_config s"
    by (simp_all add: s3_def s2_def s1_def)
  have act3: "adaptation_active s3 = adaptation_active s2" by (simp add: s3_def)
  have ne3: "opponent_data s3 \<noteq> []"
    using ne by (simp add: s3_def s2_def s1_def map_entry_nonempty)
  show ?thesis
  proof (cases "adaptation_active s2")
    case True
    then have "update_after_action s n a st b f = update_strategy s3"
      using res act3 by simp
    moreover have "config_invariant (update_strategy s3)"
      using invariant_unwritten [OF inv] ne3 True act3
      by (intro update_strategy_invariant) (simp_all add: cfg)
    ultimately show ?thesis by simp
  next
    case False
    then have na: "\<not> adaptation_active s" by (auto simp: s2_def s1_def split: if_splits)
    then have cb: "current_config s = base_config s" using inv by (simp add: invariant_inactive)
    have "update_after_action s n a st b f = s3 \<or> update_after_action s n a st b f = s2"
      using res False act3 by auto
    then show ?thesis
      using False act3 cb cfg by (auto simp: invariant_inactive)
  qed
qed

lemma observe_invariant: "config_invariant s \<Longrightarrow> config_invariant (observe s ob)"
  by (cases ob) (simp add: observe_def update_after_action_invariant)

lemma observe_all_invariant: "config_invariant s \<Longrightarrow> config_invariant (observe_all s obs)"
  unfolding observe_all_def by (induction obs arbitrary: s) (simp_all add: observe_invariant)

lemma initialize_invariant: "config_invariant (initialize_opponents s players)"
  by (simp add: invariant_inactive initialize_opponents_fields)

text \<open>
  Claim C1 (amended). After \<^verbatim>\<open>initialize_opponents\<close> and any sequence of
  \<^verbatim>\<open>update_after_action\<close> calls the base configuration is unchanged and: while the adaptation
  is not active, the current configuration is the base configuration; once it is active, the
  current configuration is the base configuration exactly when no rule fires on the latest
  aggregate, and the entries written by a rule that fires have the value that rule computes
  from the base configuration (the calling rule wins over the folding rule on bluff
  frequency, post-flop bet frequency and aggression factor); the entries that no rule writes
  are always those of the base configuration.
\<close>

theorem current_config_from_baseline:
  "(let r = observe_all (initialize_opponents s players) obs;
        base = base_config s; cur = current_config r;
        avg_fold = fst (aggregate r); avg_bluff = fst (snd (aggregate r));
        avg_call = snd (snd (aggregate r))
    in base_config r = base \<and>
       (\<not> adaptation_active r \<longrightarrow> cur = base) \<and>
       (adaptation_active r \<longrightarrow>
          (\<not> 0.6 < avg_fold \<and> \<not> 0.4 < avg_bluff \<and> \<not> 0.5 < avg_call \<longrightarrow> cur = base) \<and>
          (0.5 < avg_call \<longrightarrow>
             bluff_freq cur = max 0.1 (bluff_freq base - 0.1) \<and>
             bet_postflop cur = bet_postflop base + 0.1 \<and>
             af_factor cur = af_factor base + 0.3) \<and>
          (0.6 < avg_fold \<and> \<not> 0.5 < avg_call \<longrightarrow>
             bluff_freq cur = min 0.5 (bluff_freq base + 0.15) \<and>
             bet_postflop cur = min 0.7 (bet_postflop base + 0.15) \<and>
             af_factor cur = af_factor base + 0.5) \<and>
          (0.4 < avg_bluff \<longrightarrow>
             vpip_range cur = (max 15 (fst (vpip_range base) - 5),
                               max 20 (snd (vpip_range base) - 5)) \<and>
             call_preflop cur = min 0.4 (call_preflop base + 0.1) \<and>
             fold_to_raise cur = max 0.3 (fold_to_raise base - 0.1))) \<and>
       pfr_range cur = pfr_range base \<and> raise_preflop cur = raise_preflop base \<and>
       adaptation_start cur = adaptation_start base \<and> learning_rate cur = learning_rate base)"
proof -
  let ?r = "observe_all (initialize_opponents s players) obs"
  have b: "base_config ?r = base_config s"
    by (simp add: observe_all_base initialize_opponents_fields)
  have "config_invariant ?r"
    by (intro observe_all_invariant initialize_invariant)
  then show ?thesis
    unfolding config_invariant_def Let_def b
    by (cases "adaptation_active ?r") simp_all
qed

theorem current_config_from_baseline_witness:
  "adaptation_active (observe_all (initialize_opponents shark_init [ex_villain])
                        (replicate 20 ob_raise)) \<and>
   aggregate (observe_all (initialize_opponents shark_init [ex_villain])
                (replicate 20 ob_raise)) = (0, 0, 0) \<and>
   current_config (observe_all (initialize_opponents shark_init [ex_villain])
                     (replicate 20 ob_raise)) = base_config shark_init \<and>
   adaptation_active (observe_all (initialize_opponents shark_init [ex_villain])
                        (replicate 20 ob_fold)) \<and>
   aggregate (observe_all (initialize_opponents shark_init [ex_villain])
                (replicate 20 ob_fold)) = (1, 0.5, 0.5) \<and>
   bluff_freq (current_config (observe_all (initialize_opponents shark_init [ex_villain])
                                 (replicate 20 ob_fold))) = 0.3"
proof -
  note q = current_config_from_baseline [of shark_init "[ex_villain]" "replicate 20 ob_raise"]
  note f = current_config_from_baseline [of shark_init "[ex_villain]" "replicate 20 ob_fold"]
  have 1: "current_config (observe_all (initialize_opponents shark_init [ex_villain])
                     (replicate 20 ob_raise)) = base_config shark_init"
    using q run_quiet by (simp add: Let_def registered_def)
  have 2: "bluff_freq (current_config (observe_all (initialize_opponents shark_init [ex_villain])
                                 (replicate 20 ob_fold))) = 0.3"
    using f run_folds_20
    by (simp add: Let_def registered_def shark_init_def initial_base_config_def)
  show ?thesis using 1 2 run_quiet run_folds_20 by (simp add: registered_def)
qed

text \<open>
  As stated the claim fails: equal base configurations and equal latest aggregates do not
  give equal current configurations. After 19 and after 20 folds of the one opponent the
  aggregate is the same, but the adaptation is active only after the 20th, and only then is
  the configuration adjusted. And with the adaptation active in both, 20 folds followed by a
  raise and a raise followed by 19 folds end with the same aggregate and different ranges:
  in the first session the bluffing rule fired earlier and its entries were kept when it no
  longer fired.
\<close>

theorem current_config_history_counterexample:
  "base_config (observe_all registered (replicate 19 ob_fold))
     = base_config (observe_all registered (replicate 20 ob_fold)) \<and>
   aggregate (observe_all registered (replicate 19 ob_fold))
     = aggregate (observe_all registered (replicate 20 ob_fold)) \<and>
   current_config (observe_all registered (replicate 19 ob_fold))
     \<noteq> current_config (observe_all registered (replicate 20 ob_fold)) \<and>
   base_config (observe_all registered (replicate 20 ob_fold @ [ob_raise]))
     = base_config (observe_all registered (ob_raise # replicate 19 ob_fold)) \<and>
   adaptation_active (observe_all registered (replicate 20 ob_fold @ [ob_raise])) \<and>
   adaptation_active (observe_all registered (ob_raise # replicate 19 ob_fold)) \<and>
   aggregate (observe_all registered (replicate 20 ob_fold @ [ob_raise]))
     = aggregate (observe_all registered (ob_raise # replicate 19 ob_fold)) \<and>
   current_config (observe_all registered (replicate 20 ob_fold @ [ob_raise]))
     \<noteq> current_config (observe_all registered (ob_raise # replicate 19 ob_fold))"
proof -
  have "vpip_range (current_config (observe_all registered (replicate 19 ob_fold))) = (12, 18)"
    using run_folds_19 by (simp add: initial_base_config_def)
  then have a: "current_config (observe_all registered (replicate 19 ob_fold))
     \<noteq> current_config (observe_all registered (replicate 20 ob_fold))"
    using run_folds_20 by auto
  have b: "current_config (observe_all registered (replicate 20 ob_fold @ [ob_raise]))
     \<noteq> current_config (observe_all registered (ob_raise # replicate 19 ob_fold))"
    using run_folds_then_raise run_raise_then_folds by auto
  show ?thesis
    using a b run_folds_19 run_folds_20 run_folds_then_raise run_raise_then_folds
    by (simp add: registered_base)
qed

end
